theory Spec2Isabelle
  imports Main "HOL-Library.Word" "HOL-Library.Char_ord"
begin

section \<open>Tokens (scanner.go)\<close>

datatype TokenType =
    LEFT_PAREN | RIGHT_PAREN | LEFT_BRACE | RIGHT_BRACE
  | COMMA | DOT | MINUS | PLUS | SEMICOLON | SLASH | STAR
  | BANG | BANG_EQUAL | EQUAL | EQUAL_EQUAL
  | GREATER | GREATER_EQUAL | LESS | LESS_EQUAL
  | IDENTIFIER | STRING | NUMBER
  | AND | CLASS | ELSE | FALSE | FUN | FOR | IF | NIL | OR
  | PRINT | RETURN | SUPER | THIS | TRUE | VAR | WHILE
  | EOF

text \<open>
  A Go \<open>float64\<close> is its IEEE 754 binary64 bit pattern. The values an \<open>interface{}\<close>
  holds in this program are: nothing (\<open>nil\<close>), a \<open>bool\<close>, a \<open>float64\<close> or a \<open>string\<close>.
  A Go string is a sequence of bytes, as \<^typ>\<open>string\<close> is.
\<close>

type_synonym float64 = "64 word"

datatype Value = VNil | VBool bool | VNum float64 | VStr string

text \<open>
  What the program takes from Go's language and library and does not define itself:
  the four rounded arithmetic operations on \<open>float64\<close>, \<open>strconv.ParseFloat(_, 64)\<close>
  (its value result; the scanner drops the error), and the \<open>%v\<close> rendering of a
  \<open>float64\<close> by package \<open>fmt\<close>. Every function that uses one of them takes this record.
\<close>

record GoFloat =
  fadd :: "float64 \<Rightarrow> float64 \<Rightarrow> float64"
  fsub :: "float64 \<Rightarrow> float64 \<Rightarrow> float64"
  fmul :: "float64 \<Rightarrow> float64 \<Rightarrow> float64"
  fquo :: "float64 \<Rightarrow> float64 \<Rightarrow> float64"
  ParseFloat :: "string \<Rightarrow> float64"
  FormatFloat :: "float64 \<Rightarrow> string"

record Token =
  Type :: TokenType
  Lexeme :: string
  LiteralVal :: Value
  Line :: int

definition NewToken :: "TokenType \<Rightarrow> string \<Rightarrow> Value \<Rightarrow> int \<Rightarrow> Token" where
  "NewToken typ lexeme literal line =
     \<lparr>Type = typ, Lexeme = lexeme, LiteralVal = literal, Line = line\<rparr>"

definition keywords_map :: "string \<Rightarrow> TokenType option" where
  "keywords_map = map_of
     [(''and'', AND), (''class'', CLASS), (''else'', ELSE), (''false'', FALSE),
      (''fun'', FUN), (''for'', FOR), (''if'', IF), (''nil'', NIL), (''or'', OR),
      (''print'', PRINT), (''return'', RETURN), (''super'', SUPER), (''this'', THIS),
      (''true'', TRUE), (''var'', VAR), (''while'', WHILE)]"

subsection \<open>Formatting (package fmt)\<close>

fun digits10 :: "nat \<Rightarrow> string" where
  "digits10 n =
     (if n < 10 then [''0123456789'' ! n]
      else digits10 (n div 10) @ [''0123456789'' ! (n mod 10)])"

declare digits10.simps [simp del]

text \<open>The verb \<open>%d\<close> on an \<open>int\<close>.\<close>

definition fmt_d :: "int \<Rightarrow> string" where
  "fmt_d i = (if i < 0 then CHR ''-'' # digits10 (nat (- i)) else digits10 (nat i))"

text \<open>The verb \<open>%v\<close> on an \<open>interface{}\<close> holding one of the program's values.\<close>

definition fmt_v :: "GoFloat \<Rightarrow> Value \<Rightarrow> string" where
  "fmt_v G v =
     (case v of
        VNil \<Rightarrow> ''<nil>''
      | VBool b \<Rightarrow> (if b then ''true'' else ''false'')
      | VNum x \<Rightarrow> FormatFloat G x
      | VStr s \<Rightarrow> s)"

section \<open>Scanner (scanner.go)\<close>

record Scanner =
  source :: string
  start :: nat
  current :: nat
  line :: int
  tokens :: "Token list"
  errors :: "string list"

text \<open>
  \<open>Scanner{source: source}\<close>: every other field has its zero value; the line counter
  starts at 0.
\<close>

definition NewScanner :: "string \<Rightarrow> Scanner" where
  "NewScanner src =
     \<lparr>source = src, start = 0, current = 0, line = 0, tokens = [], errors = []\<rparr>"

definition Scanner_error :: "string \<Rightarrow> Scanner \<Rightarrow> Scanner" where
  "Scanner_error message s =
     s\<lparr>errors := errors s @ [''Line: '' @ fmt_d (line s) @ '', '' @ message]\<rparr>"

definition isDigit :: "char \<Rightarrow> bool" where
  "isDigit c = (if c \<ge> CHR ''0'' \<and> c \<le> CHR ''9'' then True else False)"

definition isAlpha :: "char \<Rightarrow> bool" where
  "isAlpha c =
     (if c \<ge> CHR ''a'' \<and> c \<le> CHR ''z'' \<or> c \<ge> CHR ''A'' \<and> c \<le> CHR ''Z'' \<or> c = CHR ''_''
      then True else False)"

definition isAlphaNumeric :: "char \<Rightarrow> bool" where
  "isAlphaNumeric c = (isAlpha c \<or> isDigit c)"

definition Scanner_isAtEnd :: "Scanner \<Rightarrow> bool" where
  "Scanner_isAtEnd s = (current s \<ge> length (source s))"

text \<open>
  In the scanner \<open>None\<close> is a Go run-time panic: an index or a slice bound out of range.
  Nothing in the scanner recovers from one.
\<close>

definition Scanner_advance :: "Scanner \<Rightarrow> (char \<times> Scanner) option" where
  "Scanner_advance s =
     (if current s < length (source s)
      then Some (source s ! current s, s\<lparr>current := current s + 1\<rparr>)
      else None)"

definition Scanner_peek :: "Scanner \<Rightarrow> char" where
  "Scanner_peek s = (if Scanner_isAtEnd s then CHR 0x00 else source s ! current s)"

definition Scanner_peekNext :: "Scanner \<Rightarrow> char" where
  "Scanner_peekNext s =
     (if current s + 1 \<ge> length (source s) then CHR 0x00 else source s ! (current s + 1))"

text \<open>\<open>match\<close> returns its boolean together with the scanner it leaves.\<close>

definition Scanner_match :: "char \<Rightarrow> Scanner \<Rightarrow> (bool \<times> Scanner) option" where
  "Scanner_match expected s =
     (if Scanner_isAtEnd s then Some (False, s)
      else if source s ! current s \<noteq> expected then Some (False, s)
      else (case Scanner_advance s of None \<Rightarrow> None | Some (c, s') \<Rightarrow> Some (True, s')))"

text \<open>The slice expression \<open>str[lo:hi]\<close>, which panics unless \<open>lo \<le> hi \<le> len(str)\<close>.\<close>

definition slice :: "string \<Rightarrow> nat \<Rightarrow> nat \<Rightarrow> string option" where
  "slice str lo hi =
     (if lo \<le> hi \<and> hi \<le> length str then Some (take (hi - lo) (drop lo str)) else None)"

definition Scanner_addTokenLiteral :: "TokenType \<Rightarrow> Value \<Rightarrow> Scanner \<Rightarrow> Scanner option" where
  "Scanner_addTokenLiteral typ literal s =
     (case slice (source s) (start s) (current s) of
        None \<Rightarrow> None
      | Some lexeme \<Rightarrow> Some (s\<lparr>tokens := tokens s @ [NewToken typ lexeme literal (line s)]\<rparr>))"

definition Scanner_addToken :: "TokenType \<Rightarrow> Scanner \<Rightarrow> Scanner option" where
  "Scanner_addToken typ s = Scanner_addTokenLiteral typ VNil s"

text \<open>The loop of the comment branch: \<open>for s.peek() != '\n' && !s.isAtEnd() { s.advance() }\<close>.\<close>

function comment_loop :: "Scanner \<Rightarrow> Scanner option" where
  "comment_loop s =
     (if Scanner_peek s \<noteq> CHR 0x0A \<and> \<not> Scanner_isAtEnd s
      then (case Scanner_advance s of None \<Rightarrow> None | Some (c, s') \<Rightarrow> comment_loop s')
      else Some s)"
  by pat_completeness auto
termination
  by (relation "measure (\<lambda>s. length (source s) - current s)")
     (auto simp: Scanner_advance_def split: if_splits)

declare comment_loop.simps [simp del]

text \<open>The loop of \<open>identifier\<close>: \<open>for isAlphaNumeric(s.peek()) { s.advance() }\<close>.\<close>

function identifier_loop :: "Scanner \<Rightarrow> Scanner option" where
  "identifier_loop s =
     (if isAlphaNumeric (Scanner_peek s)
      then (case Scanner_advance s of None \<Rightarrow> None | Some (c, s') \<Rightarrow> identifier_loop s')
      else Some s)"
  by pat_completeness auto
termination
  by (relation "measure (\<lambda>s. length (source s) - current s)")
     (auto simp: Scanner_advance_def split: if_splits)

declare identifier_loop.simps [simp del]

definition Scanner_identifier :: "Scanner \<Rightarrow> Scanner option" where
  "Scanner_identifier s =
     (case identifier_loop s of
        None \<Rightarrow> None
      | Some s1 \<Rightarrow>
          (case slice (source s1) (start s1) (current s1) of
             None \<Rightarrow> None
           | Some text \<Rightarrow>
               (case keywords_map text of
                  Some typ \<Rightarrow> Scanner_addToken typ s1
                | None \<Rightarrow> Scanner_addToken IDENTIFIER s1)))"

text \<open>The loop of \<open>string\<close>, which counts the newlines inside the literal.\<close>

function string_loop :: "Scanner \<Rightarrow> Scanner option" where
  "string_loop s =
     (if Scanner_peek s \<noteq> CHR ''\"'' \<and> \<not> Scanner_isAtEnd s
      then (case Scanner_advance
                   (if Scanner_peek s = CHR 0x0A then s\<lparr>line := line s + 1\<rparr> else s) of
              None \<Rightarrow> None
            | Some (c, s') \<Rightarrow> string_loop s')
      else Some s)"
  by pat_completeness auto
termination
  by (relation "measure (\<lambda>s. length (source s) - current s)")
     (auto simp: Scanner_advance_def split: if_splits)

declare string_loop.simps [simp del]

definition Scanner_string :: "Scanner \<Rightarrow> Scanner option" where
  "Scanner_string s =
     (case string_loop s of
        None \<Rightarrow> None
      | Some s1 \<Rightarrow>
          if Scanner_isAtEnd s1 then Some (Scanner_error ''Unterminated string.'' s1)
          else (case Scanner_advance s1 of
                  None \<Rightarrow> None
                | Some (c, s2) \<Rightarrow>
                    if 1 \<le> current s2
                    then (case slice (source s2) (start s2 + 1) (current s2 - 1) of
                            None \<Rightarrow> None
                          | Some str \<Rightarrow> Scanner_addTokenLiteral STRING (VStr str) s2)
                    else None))"

text \<open>The two digit loops of \<open>number\<close>: \<open>for isDigit(s.peek()) { s.advance() }\<close>.\<close>

function digit_loop :: "Scanner \<Rightarrow> Scanner option" where
  "digit_loop s =
     (if isDigit (Scanner_peek s)
      then (case Scanner_advance s of None \<Rightarrow> None | Some (c, s') \<Rightarrow> digit_loop s')
      else Some s)"
  by pat_completeness auto
termination
  by (relation "measure (\<lambda>s. length (source s) - current s)")
     (auto simp: Scanner_advance_def split: if_splits)

declare digit_loop.simps [simp del]

definition Scanner_number :: "GoFloat \<Rightarrow> Scanner \<Rightarrow> Scanner option" where
  "Scanner_number G s =
     (case digit_loop s of
        None \<Rightarrow> None
      | Some s1 \<Rightarrow>
          (case (if Scanner_peek s1 = CHR ''.'' \<and> isDigit (Scanner_peekNext s1)
                 then (case Scanner_advance s1 of
                         None \<Rightarrow> None
                       | Some (c, s2) \<Rightarrow> digit_loop s2)
                 else Some s1) of
             None \<Rightarrow> None
           | Some s3 \<Rightarrow>
               (case slice (source s3) (start s3) (current s3) of
                  None \<Rightarrow> None
                | Some text \<Rightarrow> Scanner_addTokenLiteral NUMBER (VNum (ParseFloat G text)) s3)))"

definition Scanner_scanToken :: "GoFloat \<Rightarrow> Scanner \<Rightarrow> Scanner option" where
  "Scanner_scanToken G s =
     (case Scanner_advance s of
        None \<Rightarrow> None
      | Some (c, s1) \<Rightarrow>
          if c = CHR ''('' then Scanner_addToken LEFT_PAREN s1
          else if c = CHR '')'' then Scanner_addToken RIGHT_PAREN s1
          else if c = CHR ''{'' then Scanner_addToken LEFT_BRACE s1
          else if c = CHR ''}'' then Scanner_addToken RIGHT_BRACE s1
          else if c = CHR '','' then Scanner_addToken COMMA s1
          else if c = CHR ''.'' then Scanner_addToken DOT s1
          else if c = CHR ''-'' then Scanner_addToken MINUS s1
          else if c = CHR ''+'' then Scanner_addToken PLUS s1
          else if c = CHR '';'' then Scanner_addToken SEMICOLON s1
          else if c = CHR ''*'' then Scanner_addToken STAR s1
          else if c = CHR ''!'' then
            (case Scanner_match (CHR ''='') s1 of
               None \<Rightarrow> None
             | Some (b, s2) \<Rightarrow>
                 if b then Scanner_addToken BANG_EQUAL s2 else Scanner_addToken BANG s2)
          else if c = CHR ''='' then
            (case Scanner_match (CHR ''='') s1 of
               None \<Rightarrow> None
             | Some (b, s2) \<Rightarrow>
                 if b then Scanner_addToken EQUAL_EQUAL s2 else Scanner_addToken EQUAL s2)
          else if c = CHR ''<'' then
            (case Scanner_match (CHR ''='') s1 of
               None \<Rightarrow> None
             | Some (b, s2) \<Rightarrow>
                 if b then Scanner_addToken LESS_EQUAL s2 else Scanner_addToken LESS s2)
          else if c = CHR ''>'' then
            (case Scanner_match (CHR ''='') s1 of
               None \<Rightarrow> None
             | Some (b, s2) \<Rightarrow>
                 if b then Scanner_addToken GREATER_EQUAL s2 else Scanner_addToken GREATER s2)
          else if c = CHR ''/'' then
            (case Scanner_match (CHR ''/'') s1 of
               None \<Rightarrow> None
             | Some (b, s2) \<Rightarrow>
                 if b then comment_loop s2 else Scanner_addToken SLASH s2)
          else if c = CHR '' '' \<or> c = CHR 0x09 \<or> c = CHR 0x0D then Some s1
          else if c = CHR 0x0A then Some (s1\<lparr>line := line s1 + 1\<rparr>)
          else if c = CHR ''\"'' then Scanner_string s1
          else if isDigit c then Scanner_number G s1
          else if isAlpha c then Scanner_identifier s1
          else Some (Scanner_error ''Unexpected character.'' s1))"

subsection \<open>What one call of \<open>scanToken\<close> does to the scanner\<close>

text \<open>
  \<open>scanned s s'\<close>: the source and the start of the lexeme are those of \<open>s\<close>, the cursor
  has not moved back and is within the source, and no end-of-input token was added.
\<close>

definition noEOF :: "Token list \<Rightarrow> bool" where
  "noEOF ts = (\<forall>t \<in> set ts. Type t \<noteq> EOF)"

definition scanned :: "Scanner \<Rightarrow> Scanner \<Rightarrow> bool" where
  "scanned s s' \<longleftrightarrow>
     source s' = source s \<and> start s' = start s \<and> current s \<le> current s' \<and>
     current s' \<le> length (source s') \<and> (noEOF (tokens s) \<longrightarrow> noEOF (tokens s'))"

lemma scanned_refl: "current s \<le> length (source s) \<Longrightarrow> scanned s s"
  by (auto simp: scanned_def)

lemma scanned_trans: "scanned s s1 \<Longrightarrow> scanned s1 s2 \<Longrightarrow> scanned s s2"
  by (auto simp: scanned_def)

lemma scanned_line: "current s \<le> length (source s) \<Longrightarrow> scanned s (s\<lparr>line := l\<rparr>)"
  by (auto simp: scanned_def)

lemma scanned_error: "current s \<le> length (source s) \<Longrightarrow> scanned s (Scanner_error m s)"
  by (simp add: scanned_def Scanner_error_def)

lemma advance_scanned:
  "current s < length (source s) \<Longrightarrow>
   \<exists>s'. Scanner_advance s = Some (source s ! current s, s') \<and> scanned s s' \<and>
        current s' = current s + 1"
  by (simp add: Scanner_advance_def scanned_def)

lemma match_scanned:
  "current s \<le> length (source s) \<Longrightarrow>
   \<exists>b s'. Scanner_match e s = Some (b, s') \<and> scanned s s'"
  by (auto simp: Scanner_match_def Scanner_advance_def Scanner_isAtEnd_def scanned_def)

lemma addTokenLiteral_scanned:
  "typ \<noteq> EOF \<Longrightarrow> start s \<le> current s \<Longrightarrow> current s \<le> length (source s) \<Longrightarrow>
   \<exists>s'. Scanner_addTokenLiteral typ lit s = Some s' \<and> scanned s s'"
  by (auto simp: Scanner_addTokenLiteral_def slice_def scanned_def noEOF_def NewToken_def)

lemma addToken_scanned:
  "typ \<noteq> EOF \<Longrightarrow> start s \<le> current s \<Longrightarrow> current s \<le> length (source s) \<Longrightarrow>
   \<exists>s'. Scanner_addToken typ s = Some s' \<and> scanned s s'"
  unfolding Scanner_addToken_def by (rule addTokenLiteral_scanned)

lemma isDigit_0: "\<not> isDigit (CHR 0x00)" by (simp add: isDigit_def)
lemma isAlphaNumeric_0: "\<not> isAlphaNumeric (CHR 0x00)" by (simp add: isAlphaNumeric_def isAlpha_def isDigit_def)

lemma peek_not_0: "Scanner_peek s \<noteq> CHR 0x00 \<Longrightarrow> current s < length (source s)"
  by (auto simp: Scanner_peek_def Scanner_isAtEnd_def split: if_splits)

lemma digit_loop_scanned:
  "current s \<le> length (source s) \<Longrightarrow> \<exists>s'. digit_loop s = Some s' \<and> scanned s s'"
proof (induction s rule: digit_loop.induct)
  case (1 s)
  show ?case
  proof (cases "isDigit (Scanner_peek s)")
    case True
    then have lt: "current s < length (source s)"
      using isDigit_0 peek_not_0 by metis
    from advance_scanned [OF lt] obtain s1 where
      a: "Scanner_advance s = Some (source s ! current s, s1)" and sc: "scanned s s1"
      by blast
    from sc have "current s1 \<le> length (source s1)" by (auto simp: scanned_def)
    from "1.IH" [OF True a refl this] obtain s' where
      "digit_loop s1 = Some s'" "scanned s1 s'" by blast
    with True a sc show ?thesis
      by (subst digit_loop.simps) (auto intro: scanned_trans)
  next
    case False
    with "1.prems" show ?thesis
      by (subst digit_loop.simps) (simp add: scanned_refl)
  qed
qed

lemma identifier_loop_scanned:
  "current s \<le> length (source s) \<Longrightarrow> \<exists>s'. identifier_loop s = Some s' \<and> scanned s s'"
proof (induction s rule: identifier_loop.induct)
  case (1 s)
  show ?case
  proof (cases "isAlphaNumeric (Scanner_peek s)")
    case True
    then have lt: "current s < length (source s)"
      using isAlphaNumeric_0 peek_not_0 by metis
    from advance_scanned [OF lt] obtain s1 where
      a: "Scanner_advance s = Some (source s ! current s, s1)" and sc: "scanned s s1"
      by blast
    from sc have "current s1 \<le> length (source s1)" by (auto simp: scanned_def)
    from "1.IH" [OF True a refl this] obtain s' where
      "identifier_loop s1 = Some s'" "scanned s1 s'" by blast
    with True a sc show ?thesis
      by (subst identifier_loop.simps) (auto intro: scanned_trans)
  next
    case False
    with "1.prems" show ?thesis
      by (subst identifier_loop.simps) (simp add: scanned_refl)
  qed
qed

lemma comment_loop_scanned:
  "current s \<le> length (source s) \<Longrightarrow> \<exists>s'. comment_loop s = Some s' \<and> scanned s s'"
proof (induction s rule: comment_loop.induct)
  case (1 s)
  show ?case
  proof (cases "Scanner_peek s \<noteq> CHR 0x0A \<and> \<not> Scanner_isAtEnd s")
    case True
    then have lt: "current s < length (source s)"
      by (simp add: Scanner_isAtEnd_def)
    from advance_scanned [OF lt] obtain s1 where
      a: "Scanner_advance s = Some (source s ! current s, s1)" and sc: "scanned s s1"
      by blast
    from sc have "current s1 \<le> length (source s1)" by (auto simp: scanned_def)
    from "1.IH" [OF True a refl this] obtain s' where
      "comment_loop s1 = Some s'" "scanned s1 s'" by blast
    with True a sc show ?thesis
      by (subst comment_loop.simps) (auto intro: scanned_trans)
  next
    case False
    with "1.prems" show ?thesis
      by (subst comment_loop.simps) (auto simp add: scanned_refl)
  qed
qed

lemma string_loop_scanned:
  "current s \<le> length (source s) \<Longrightarrow> \<exists>s'. string_loop s = Some s' \<and> scanned s s'"
proof (induction s rule: string_loop.induct)
  case (1 s)
  let ?t = "if Scanner_peek s = CHR 0x0A then s\<lparr>line := line s + 1\<rparr> else s"
  show ?case
  proof (cases "Scanner_peek s \<noteq> CHR ''\"'' \<and> \<not> Scanner_isAtEnd s")
    case True
    then have lt: "current ?t < length (source ?t)"
      by (simp add: Scanner_isAtEnd_def)
    have st: "scanned s ?t"
      using "1.prems" by (auto simp: scanned_def)
    from advance_scanned [OF lt] obtain s1 where
      a: "Scanner_advance ?t = Some (source ?t ! current ?t, s1)" and sc: "scanned ?t s1"
      by blast
    from sc have "current s1 \<le> length (source s1)" by (auto simp: scanned_def split: if_splits)
    from "1.IH" [OF True a refl this] obtain s' where
      "string_loop s1 = Some s'" "scanned s1 s'" by blast
    with True a sc st show ?thesis
      by (subst string_loop.simps) (auto intro: scanned_trans)
  next
    case False
    with "1.prems" show ?thesis
      by (subst string_loop.simps) (auto simp add: scanned_refl)
  qed
qed

lemma keywords_map_not_EOF: "keywords_map k = Some typ \<Longrightarrow> typ \<noteq> EOF"
  by (auto simp: keywords_map_def split: if_splits)

lemma identifier_scanned:
  assumes "start s \<le> current s" "current s \<le> length (source s)"
  shows "\<exists>s'. Scanner_identifier s = Some s' \<and> scanned s s'"
proof -
  from identifier_loop_scanned [OF assms(2)] obtain s1 where
    l: "identifier_loop s = Some s1" and sc: "scanned s s1" by blast
  from sc assms have w: "start s1 \<le> current s1" "current s1 \<le> length (source s1)"
    by (auto simp: scanned_def)
  then obtain lx where sl: "slice (source s1) (start s1) (current s1) = Some lx"
    by (simp add: slice_def)
  have "\<exists>s'. (case keywords_map lx of Some typ \<Rightarrow> Scanner_addToken typ s1
                | None \<Rightarrow> Scanner_addToken IDENTIFIER s1) = Some s' \<and> scanned s1 s'"
    using addToken_scanned [OF _ w] keywords_map_not_EOF [of lx]
    by (cases "keywords_map lx") auto
  with l sl sc show ?thesis
    by (auto simp: Scanner_identifier_def intro: scanned_trans)
qed

lemma number_scanned:
  assumes "start s \<le> current s" "current s \<le> length (source s)"
  shows "\<exists>s'. Scanner_number G s = Some s' \<and> scanned s s'"
proof -
  from digit_loop_scanned [OF assms(2)] obtain s1 where
    l: "digit_loop s = Some s1" and sc: "scanned s s1" by blast
  let ?mid = "if Scanner_peek s1 = CHR ''.'' \<and> isDigit (Scanner_peekNext s1)
              then (case Scanner_advance s1 of None \<Rightarrow> None | Some (c, s2) \<Rightarrow> digit_loop s2)
              else Some s1"
  have w1: "current s1 \<le> length (source s1)" using sc by (auto simp: scanned_def)
  have "\<exists>s3. ?mid = Some s3 \<and> scanned s1 s3"
  proof (cases "Scanner_peek s1 = CHR ''.'' \<and> isDigit (Scanner_peekNext s1)")
    case True
    then have lt: "current s1 < length (source s1)"
      using peek_not_0 [of s1] by simp
    from advance_scanned [OF lt] obtain s2 where
      a: "Scanner_advance s1 = Some (source s1 ! current s1, s2)" and sc2: "scanned s1 s2"
      by blast
    from sc2 have "current s2 \<le> length (source s2)" by (auto simp: scanned_def)
    from digit_loop_scanned [OF this] obtain s3 where
      "digit_loop s2 = Some s3" "scanned s2 s3" by blast
    with True a sc2 show ?thesis by (auto intro: scanned_trans)
  next
    case False
    then show ?thesis using w1 by (auto simp: scanned_refl)
  qed
  then obtain s3 where m: "?mid = Some s3" and sc3: "scanned s1 s3" by blast
  from sc sc3 assms have w: "start s3 \<le> current s3" "current s3 \<le> length (source s3)"
    by (auto simp: scanned_def)
  then obtain lx where sl: "slice (source s3) (start s3) (current s3) = Some lx"
    by (simp add: slice_def)
  from addTokenLiteral_scanned [OF _ w, of NUMBER] obtain s' where
    "Scanner_addTokenLiteral NUMBER (VNum (ParseFloat G lx)) s3 = Some s'" "scanned s3 s'"
    by blast
  with l m sl sc sc3 show ?thesis
    unfolding Scanner_number_def by (auto intro: scanned_trans)
qed

lemma string_scanned:
  assumes "start s < current s" "current s \<le> length (source s)"
  shows "\<exists>s'. Scanner_string s = Some s' \<and> scanned s s'"
proof -
  from string_loop_scanned [OF assms(2)] obtain s1 where
    l: "string_loop s = Some s1" and sc: "scanned s s1" by blast
  have w1: "current s1 \<le> length (source s1)" "start s1 < current s1"
    using sc assms by (auto simp: scanned_def)
  show ?thesis
  proof (cases "Scanner_isAtEnd s1")
    case True
    with l sc w1 show ?thesis
      by (auto simp: Scanner_string_def intro: scanned_trans scanned_error)
  next
    case False
    then have lt: "current s1 < length (source s1)" by (simp add: Scanner_isAtEnd_def)
    from advance_scanned [OF lt] obtain s2 where
      a: "Scanner_advance s1 = Some (source s1 ! current s1, s2)" and sc2: "scanned s1 s2"
      and c2: "current s2 = current s1 + 1"
      by blast
    from sc2 w1 c2 have w2: "start s2 + 1 \<le> current s2 - 1" "current s2 \<le> length (source s2)"
      "start s2 \<le> current s2"
      by (auto simp: scanned_def)
    moreover from w2(2) have "current s2 - 1 \<le> length (source s2)" by arith
    ultimately obtain str where
      sl: "slice (source s2) (start s2 + 1) (current s2 - 1) = Some str"
      by (simp add: slice_def)
    from addTokenLiteral_scanned [OF _ w2(3) w2(2), of STRING] obtain s' where
      "Scanner_addTokenLiteral STRING (VStr str) s2 = Some s'" "scanned s2 s'"
      by blast
    with l False a sl sc sc2 c2 show ?thesis
      unfolding Scanner_string_def by (auto intro: scanned_trans)
  qed
qed

lemma scanToken_scanned:
  assumes "start s = current s" "current s < length (source s)"
  shows "\<exists>s'. Scanner_scanToken G s = Some s' \<and> scanned s s' \<and> current s < current s'"
proof -
  from advance_scanned [OF assms(2)] obtain s1 where
    a: "Scanner_advance s = Some (source s ! current s, s1)" and sc: "scanned s s1"
    and c1: "current s1 = current s + 1"
    by blast
  from sc c1 assms have w: "start s1 < current s1" "start s1 \<le> current s1"
    "current s1 \<le> length (source s1)"
    by (auto simp: scanned_def)
  have addT: "\<And>ty t. ty \<noteq> EOF \<Longrightarrow> scanned s1 t \<Longrightarrow>
      \<exists>s'. Scanner_addToken ty t = Some s' \<and> scanned s1 s'"
  proof -
    fix ty t assume "ty \<noteq> EOF" "scanned s1 t"
    then show "\<exists>s'. Scanner_addToken ty t = Some s' \<and> scanned s1 s'"
      using addToken_scanned [of ty t] w by (auto simp: scanned_def intro: scanned_trans)
  qed
  have m: "\<And>e t1 t2 . t1 \<noteq> EOF \<Longrightarrow> t2 \<noteq> EOF \<Longrightarrow>
     \<exists>s'. (case Scanner_match e s1 of None \<Rightarrow> None
           | Some (b, s2) \<Rightarrow> if b then Scanner_addToken t1 s2 else Scanner_addToken t2 s2) = Some s'
          \<and> scanned s1 s'"
  proof -
    fix e t1 t2 assume "t1 \<noteq> EOF" "t2 \<noteq> EOF"
    moreover obtain b s2 where "Scanner_match e s1 = Some (b, s2)" "scanned s1 s2"
      using match_scanned [OF w(3)] by blast
    ultimately show "\<exists>s'. (case Scanner_match e s1 of None \<Rightarrow> None
           | Some (b, s2) \<Rightarrow> if b then Scanner_addToken t1 s2 else Scanner_addToken t2 s2) = Some s'
          \<and> scanned s1 s'"
      using addT [of t1 s2] addT [of t2 s2] by auto
  qed
  have cm: "\<exists>s'. (case Scanner_match (CHR ''/'') s1 of None \<Rightarrow> None
           | Some (b, s2) \<Rightarrow> if b then comment_loop s2 else Scanner_addToken SLASH s2) = Some s'
          \<and> scanned s1 s'"
  proof -
    obtain b s2 where "Scanner_match (CHR ''/'') s1 = Some (b, s2)" "scanned s1 s2"
      using match_scanned [OF w(3)] by blast
    then show ?thesis
      using addT [of SLASH s2] comment_loop_scanned [of s2]
      by (auto simp: scanned_def)
  qed
  have "\<exists>s'. Scanner_scanToken G s = Some s' \<and> scanned s1 s'"
    unfolding Scanner_scanToken_def a option.case prod.case
    using addT [OF _ scanned_refl [OF w(3)]] m cm scanned_refl [OF w(3)] scanned_line [OF w(3)]
      scanned_error [OF w(3)] string_scanned [OF w(1) w(3)] number_scanned [OF w(2) w(3)]
      identifier_scanned [OF w(2) w(3)]
    by simp
  with sc c1 show ?thesis
    by (auto simp: scanned_def intro: scanned_trans)
qed

text \<open>The loop of \<open>ScanTokens\<close>: \<open>for !s.isAtEnd() { s.start = s.current; s.scanToken() }\<close>.\<close>

function ScanTokens_loop :: "GoFloat \<Rightarrow> Scanner \<Rightarrow> Scanner option" where
  "ScanTokens_loop G s =
     (if \<not> Scanner_isAtEnd s
      then (case Scanner_scanToken G (s\<lparr>start := current s\<rparr>) of
              None \<Rightarrow> None
            | Some s' \<Rightarrow> ScanTokens_loop G s')
      else Some s)"
  by pat_completeness auto
termination
proof (relation "measure (\<lambda>(G, s). length (source s) - current s)")
  show "wf (measure (\<lambda>(G, s). length (source s) - current s))" by simp
next
  fix G :: GoFloat and s s' :: Scanner
  assume ne: "\<not> Scanner_isAtEnd s"
    and st: "Scanner_scanToken G (s\<lparr>start := current s\<rparr>) = Some s'"
  from ne have "current (s\<lparr>start := current s\<rparr>) < length (source (s\<lparr>start := current s\<rparr>))"
    by (simp add: Scanner_isAtEnd_def)
  from scanToken_scanned [OF _ this, of G] st
  have "source s' = source s" "current s < current s'"
    by (auto simp: scanned_def)
  with ne show "((G, s'), (G, s)) \<in> measure (\<lambda>(G, s). length (source s) - current s)"
    by (simp add: Scanner_isAtEnd_def)
qed

declare ScanTokens_loop.simps [simp del]

definition Scanner_ScanTokens :: "GoFloat \<Rightarrow> Scanner \<Rightarrow> (Token list \<times> string list) option" where
  "Scanner_ScanTokens G s =
     (case ScanTokens_loop G s of
        None \<Rightarrow> None
      | Some s' \<Rightarrow>
          Some (tokens s' @ [\<lparr>Type = EOF, Lexeme = [], LiteralVal = VNil, Line = line s'\<rparr>],
                errors s'))"

section \<open>Expressions and the parser (the parser file)\<close>

datatype Expr =
    Binary Token Expr Expr
  | Unary Token Expr
  | Literal Value
  | Grouping Expr

datatype ParseError = ParseError string

text \<open>
  What a parser function can panic with: the \<open>ParseError\<close> it raises itself, or a Go
  run-time error (an index out of range).
\<close>

datatype ParsePanic = PanicParseError ParseError | PanicRuntime

text \<open>
  Modelled from the spec: the \<open>String\<close> method of \<open>TokenType\<close> is generated by
  \<open>stringer\<close> (the \<open>go:generate\<close> line of scanner.go) and is not in the source tree;
  the spec calls it the token's kind in the textual forms of its section 6. \<open>stringer\<close>
  renders a constant as its identifier.
\<close>

fun TokenType_String :: "TokenType \<Rightarrow> string" where
  "TokenType_String LEFT_PAREN = ''LEFT_PAREN''"
| "TokenType_String RIGHT_PAREN = ''RIGHT_PAREN''"
| "TokenType_String LEFT_BRACE = ''LEFT_BRACE''"
| "TokenType_String RIGHT_BRACE = ''RIGHT_BRACE''"
| "TokenType_String COMMA = ''COMMA''"
| "TokenType_String DOT = ''DOT''"
| "TokenType_String MINUS = ''MINUS''"
| "TokenType_String PLUS = ''PLUS''"
| "TokenType_String SEMICOLON = ''SEMICOLON''"
| "TokenType_String SLASH = ''SLASH''"
| "TokenType_String STAR = ''STAR''"
| "TokenType_String BANG = ''BANG''"
| "TokenType_String BANG_EQUAL = ''BANG_EQUAL''"
| "TokenType_String EQUAL = ''EQUAL''"
| "TokenType_String EQUAL_EQUAL = ''EQUAL_EQUAL''"
| "TokenType_String GREATER = ''GREATER''"
| "TokenType_String GREATER_EQUAL = ''GREATER_EQUAL''"
| "TokenType_String LESS = ''LESS''"
| "TokenType_String LESS_EQUAL = ''LESS_EQUAL''"
| "TokenType_String IDENTIFIER = ''IDENTIFIER''"
| "TokenType_String STRING = ''STRING''"
| "TokenType_String NUMBER = ''NUMBER''"
| "TokenType_String AND = ''AND''"
| "TokenType_String CLASS = ''CLASS''"
| "TokenType_String ELSE = ''ELSE''"
| "TokenType_String FALSE = ''FALSE''"
| "TokenType_String FUN = ''FUN''"
| "TokenType_String FOR = ''FOR''"
| "TokenType_String IF = ''IF''"
| "TokenType_String NIL = ''NIL''"
| "TokenType_String OR = ''OR''"
| "TokenType_String PRINT = ''PRINT''"
| "TokenType_String RETURN = ''RETURN''"
| "TokenType_String SUPER = ''SUPER''"
| "TokenType_String THIS = ''THIS''"
| "TokenType_String TRUE = ''TRUE''"
| "TokenType_String VAR = ''VAR''"
| "TokenType_String WHILE = ''WHILE''"
| "TokenType_String EOF = ''EOF''"

definition Parser_isAtEnd :: "Token list \<Rightarrow> nat \<Rightarrow> ParsePanic + bool" where
  "Parser_isAtEnd ts cur =
     (if cur < length ts then Inr (Type (ts ! cur) = EOF) else Inl PanicRuntime)"

definition Parser_peek :: "Token list \<Rightarrow> nat \<Rightarrow> ParsePanic + Token" where
  "Parser_peek ts cur = (if cur < length ts then Inr (ts ! cur) else Inl PanicRuntime)"

definition Parser_previous :: "Token list \<Rightarrow> nat \<Rightarrow> ParsePanic + Token" where
  "Parser_previous ts cur =
     (if 1 \<le> cur \<and> cur - 1 < length ts then Inr (ts ! (cur - 1)) else Inl PanicRuntime)"

definition Parser_advance :: "Token list \<Rightarrow> nat \<Rightarrow> ParsePanic + Token \<times> nat" where
  "Parser_advance ts cur =
     (case Parser_isAtEnd ts cur of
        Inl p \<Rightarrow> Inl p
      | Inr atEnd \<Rightarrow>
          (let cur' = (if \<not> atEnd then cur + 1 else cur)
           in case Parser_previous ts cur' of
                Inl p \<Rightarrow> Inl p
              | Inr t \<Rightarrow> Inr (t, cur')))"

definition Parser_checkTokenType :: "Token list \<Rightarrow> nat \<Rightarrow> TokenType \<Rightarrow> ParsePanic + bool" where
  "Parser_checkTokenType ts cur tokenType =
     (case Parser_isAtEnd ts cur of
        Inl p \<Rightarrow> Inl p
      | Inr atEnd \<Rightarrow>
          if atEnd then Inr False
          else if cur < length ts then Inr (Type (ts ! cur) = tokenType)
          else Inl PanicRuntime)"

fun Parser_match :: "Token list \<Rightarrow> nat \<Rightarrow> TokenType list \<Rightarrow> ParsePanic + bool \<times> nat" where
  "Parser_match ts cur [] = Inr (False, cur)"
| "Parser_match ts cur (ty # tokenTypes) =
     (case Parser_checkTokenType ts cur ty of
        Inl p \<Rightarrow> Inl p
      | Inr ok \<Rightarrow>
          if ok then (case Parser_advance ts cur of
                        Inl p \<Rightarrow> Inl p
                      | Inr (t, cur') \<Rightarrow> Inr (True, cur'))
          else Parser_match ts cur tokenTypes)"

definition Parser_error :: "Token \<Rightarrow> string \<Rightarrow> ParseError" where
  "Parser_error token message =
     ParseError (Lexeme token @ '' '' @ TokenType_String (Type token) @ '' '' @
                 fmt_d (Line token) @ '' at '' @ [CHR 0x27] @ message @ [CHR 0x27])"

definition Parser_consume :: "Token list \<Rightarrow> nat \<Rightarrow> TokenType \<Rightarrow> string \<Rightarrow> ParsePanic + Token \<times> nat" where
  "Parser_consume ts cur tokenType message =
     (case Parser_checkTokenType ts cur tokenType of
        Inl p \<Rightarrow> Inl p
      | Inr ok \<Rightarrow>
          if ok then Parser_advance ts cur
          else (case Parser_peek ts cur of
                  Inl p \<Rightarrow> Inl p
                | Inr t \<Rightarrow> Inl (PanicParseError (Parser_error t message))))"

lemma Parser_match_True:
  "Parser_match ts cur tys = Inr (True, c) \<Longrightarrow> c = cur + 1 \<and> cur < length ts"
  by (induction tys)
     (auto simp: Parser_checkTokenType_def Parser_advance_def Parser_isAtEnd_def
         Parser_previous_def Let_def split: sum.splits if_splits)

lemma Parser_match_False: "Parser_match ts cur tys = Inr (False, c) \<Longrightarrow> c = cur"
  by (induction tys) (auto split: sum.splits if_splits)

declare Parser_match.simps [simp del]

text \<open>
  The grammar functions. Each takes the token sequence and the cursor \<open>current\<close> and
  returns the expression with the cursor it leaves, or the panic. The \<open>for\<close> loop of
  each binary level is the \<open>_loop\<close> function after it; the operator is read by
  \<open>previous\<close> before the right operand is parsed, as Go evaluates the fields of the
  composite literal in order.
\<close>

function (domintros)
  Parser_expression :: "Token list \<Rightarrow> nat \<Rightarrow> ParsePanic + Expr \<times> nat" and
  Parser_equality :: "Token list \<Rightarrow> nat \<Rightarrow> ParsePanic + Expr \<times> nat" and
  equality_loop :: "Token list \<Rightarrow> Expr \<Rightarrow> nat \<Rightarrow> ParsePanic + Expr \<times> nat" and
  Parser_comparison :: "Token list \<Rightarrow> nat \<Rightarrow> ParsePanic + Expr \<times> nat" and
  comparison_loop :: "Token list \<Rightarrow> Expr \<Rightarrow> nat \<Rightarrow> ParsePanic + Expr \<times> nat" and
  Parser_term :: "Token list \<Rightarrow> nat \<Rightarrow> ParsePanic + Expr \<times> nat" and
  term_loop :: "Token list \<Rightarrow> Expr \<Rightarrow> nat \<Rightarrow> ParsePanic + Expr \<times> nat" and
  Parser_factor :: "Token list \<Rightarrow> nat \<Rightarrow> ParsePanic + Expr \<times> nat" and
  factor_loop :: "Token list \<Rightarrow> Expr \<Rightarrow> nat \<Rightarrow> ParsePanic + Expr \<times> nat" and
  Parser_unary :: "Token list \<Rightarrow> nat \<Rightarrow> ParsePanic + Expr \<times> nat" and
  Parser_primary :: "Token list \<Rightarrow> nat \<Rightarrow> ParsePanic + Expr \<times> nat"
where
  "Parser_expression ts cur = Parser_equality ts cur"
| "Parser_equality ts cur =
     (case Parser_comparison ts cur of
        Inl p \<Rightarrow> Inl p
      | Inr (expr, c) \<Rightarrow> equality_loop ts expr c)"
| "equality_loop ts expr cur =
     (case Parser_match ts cur [EQUAL_EQUAL, BANG_EQUAL] of
        Inl p \<Rightarrow> Inl p
      | Inr (matched, c) \<Rightarrow>
          if matched then
            (case Parser_previous ts c of
               Inl p \<Rightarrow> Inl p
             | Inr operator \<Rightarrow>
                 (case Parser_comparison ts c of
                    Inl p \<Rightarrow> Inl p
                  | Inr (right, c') \<Rightarrow> equality_loop ts (Binary operator expr right) c'))
          else Inr (expr, c))"
| "Parser_comparison ts cur =
     (case Parser_term ts cur of
        Inl p \<Rightarrow> Inl p
      | Inr (expr, c) \<Rightarrow> comparison_loop ts expr c)"
| "comparison_loop ts expr cur =
     (case Parser_match ts cur [GREATER, GREATER_EQUAL, LESS, LESS_EQUAL] of
        Inl p \<Rightarrow> Inl p
      | Inr (matched, c) \<Rightarrow>
          if matched then
            (case Parser_previous ts c of
               Inl p \<Rightarrow> Inl p
             | Inr operator \<Rightarrow>
                 (case Parser_term ts c of
                    Inl p \<Rightarrow> Inl p
                  | Inr (right, c') \<Rightarrow> comparison_loop ts (Binary operator expr right) c'))
          else Inr (expr, c))"
| "Parser_term ts cur =
     (case Parser_factor ts cur of
        Inl p \<Rightarrow> Inl p
      | Inr (expr, c) \<Rightarrow> term_loop ts expr c)"
| "term_loop ts expr cur =
     (case Parser_match ts cur [PLUS, MINUS, OR] of
        Inl p \<Rightarrow> Inl p
      | Inr (matched, c) \<Rightarrow>
          if matched then
            (case Parser_previous ts c of
               Inl p \<Rightarrow> Inl p
             | Inr operator \<Rightarrow>
                 (case Parser_factor ts c of
                    Inl p \<Rightarrow> Inl p
                  | Inr (right, c') \<Rightarrow> term_loop ts (Binary operator expr right) c'))
          else Inr (expr, c))"
| "Parser_factor ts cur =
     (case Parser_unary ts cur of
        Inl p \<Rightarrow> Inl p
      | Inr (expr, c) \<Rightarrow> factor_loop ts expr c)"
| "factor_loop ts expr cur =
     (case Parser_match ts cur [STAR, SLASH, AND] of
        Inl p \<Rightarrow> Inl p
      | Inr (matched, c) \<Rightarrow>
          if matched then
            (case Parser_previous ts c of
               Inl p \<Rightarrow> Inl p
             | Inr operator \<Rightarrow>
                 (case Parser_unary ts c of
                    Inl p \<Rightarrow> Inl p
                  | Inr (right, c') \<Rightarrow> factor_loop ts (Binary operator expr right) c'))
          else Inr (expr, c))"
| "Parser_unary ts cur =
     (case Parser_match ts cur [MINUS, BANG] of
        Inl p \<Rightarrow> Inl p
      | Inr (matched, c) \<Rightarrow>
          if \<not> matched then Parser_primary ts c
          else (case Parser_previous ts c of
                  Inl p \<Rightarrow> Inl p
                | Inr operator \<Rightarrow>
                    (case Parser_unary ts c of
                       Inl p \<Rightarrow> Inl p
                     | Inr (right, c') \<Rightarrow> Inr (Unary operator right, c'))))"
| "Parser_primary ts cur =
     (case Parser_match ts cur [NUMBER, STRING] of
        Inl p \<Rightarrow> Inl p
      | Inr (m1, c1) \<Rightarrow>
          if m1 then (case Parser_previous ts c1 of
                        Inl p \<Rightarrow> Inl p
                      | Inr t \<Rightarrow> Inr (Literal (LiteralVal t), c1))
          else
     (case Parser_match ts c1 [TRUE] of
        Inl p \<Rightarrow> Inl p
      | Inr (m2, c2) \<Rightarrow>
          if m2 then Inr (Literal (VBool True), c2)
          else
     (case Parser_match ts c2 [FALSE] of
        Inl p \<Rightarrow> Inl p
      | Inr (m3, c3) \<Rightarrow>
          if m3 then Inr (Literal (VBool False), c3)
          else
     (case Parser_match ts c3 [NIL] of
        Inl p \<Rightarrow> Inl p
      | Inr (m4, c4) \<Rightarrow>
          if m4 then Inr (Literal (VStr ''null''), c4)
          else
     (case Parser_match ts c4 [LEFT_PAREN] of
        Inl p \<Rightarrow> Inl p
      | Inr (m5, c5) \<Rightarrow>
          if m5 then
            (case Parser_expression ts c5 of
               Inl p \<Rightarrow> Inl p
             | Inr (expr, c6) \<Rightarrow>
                 (case Parser_consume ts c6 RIGHT_PAREN
                         (''Expect '' @ [CHR 0x27] @ '')'' @ [CHR 0x27] @ '' after expression.'') of
                    Inl p \<Rightarrow> Inl p
                  | Inr (t, c7) \<Rightarrow> Inr (Grouping expr, c7)))
          else (case Parser_peek ts c5 of
                  Inl p \<Rightarrow> Inl p
                | Inr t \<Rightarrow> Inl (PanicParseError (Parser_error t ''Expect expression''))))))))"
  by pat_completeness auto

abbreviation (input) Parser_dom where
  "Parser_dom \<equiv> Parser_expression_Parser_equality_equality_loop_Parser_comparison_comparison_loop_Parser_term_term_loop_Parser_factor_factor_loop_Parser_unary_Parser_primary_dom"

lemmas Parser_pinduct =
  Parser_expression_Parser_equality_equality_loop_Parser_comparison_comparison_loop_Parser_term_term_loop_Parser_factor_factor_loop_Parser_unary_Parser_primary.pinduct

lemma Parser_consume_Inr: "Parser_consume ts cur ty m = Inr (t, c) \<Longrightarrow> cur \<le> c"
  by (auto simp: Parser_consume_def Parser_checkTokenType_def Parser_advance_def Parser_isAtEnd_def
         Parser_previous_def Parser_peek_def Let_def split: sum.splits if_splits)

text \<open>
  Termination: no call moves the cursor back, and every call made after a successful
  \<open>match\<close> starts one token further. First the partial property, on the domain.
\<close>

lemma level_cursor:
  assumes "r = (case g of Inl p \<Rightarrow> Inl p | Inr (x, y) \<Rightarrow> l x y)"
    and "\<forall>e c. g = Inr (e, c) \<longrightarrow> cur \<le> c"
    and "\<And>b x y. g = Inr b \<Longrightarrow> (x, y) = b \<Longrightarrow> \<forall>e c. l x y = Inr (e, c) \<longrightarrow> y \<le> c"
  shows "\<forall>e c. r = Inr (e, c) \<longrightarrow> cur \<le> (c::nat)"
proof (intro allI impI)
  fix e c assume "r = Inr (e, c)"
  with assms(1) obtain x y where g: "g = Inr (x, y)" and l: "l x y = Inr (e, c)"
    by (cases g) (auto split: prod.splits)
  from assms(2) g have "cur \<le> y" by blast
  moreover from assms(3) [OF g refl] l have "y \<le> c" by blast
  ultimately show "cur \<le> c" by simp
qed

lemma loop_cursor:
  assumes "r = (case Parser_match ts cur tys of
                  Inl p \<Rightarrow> Inl p
                | Inr (matched, c) \<Rightarrow>
                    if matched then
                      (case Parser_previous ts c of
                         Inl p \<Rightarrow> Inl p
                       | Inr operator \<Rightarrow>
                           (case g c of
                              Inl p \<Rightarrow> Inl p
                            | Inr (right, c') \<Rightarrow> l (Binary operator expr right) c'))
                    else Inr (expr, c))"
    and "\<And>b x y ba. Parser_match ts cur tys = Inr b \<Longrightarrow> (x, y) = b \<Longrightarrow> x \<Longrightarrow>
           Parser_previous ts y = Inr ba \<Longrightarrow> \<forall>e c. g y = Inr (e, c) \<longrightarrow> y \<le> c"
    and "\<And>b x y ba bb xa ya. Parser_match ts cur tys = Inr b \<Longrightarrow> (x, y) = b \<Longrightarrow> x \<Longrightarrow>
           Parser_previous ts y = Inr ba \<Longrightarrow> g y = Inr bb \<Longrightarrow> (xa, ya) = bb \<Longrightarrow>
           \<forall>e c. l (Binary ba expr xa) ya = Inr (e, c) \<longrightarrow> ya \<le> c"
  shows "\<forall>e c. r = Inr (e, c) \<longrightarrow> cur \<le> c"
proof (intro allI impI)
  fix e c assume r: "r = Inr (e, c)"
  with assms(1) obtain matched c0 where m: "Parser_match ts cur tys = Inr (matched, c0)"
    by (cases "Parser_match ts cur tys") auto
  show "cur \<le> c"
  proof (cases matched)
    case False
    with r assms(1) m have "c = c0" by simp
    with m False show ?thesis by (auto dest: Parser_match_False)
  next
    case True
    with m have c0: "c0 = cur + 1" by (auto dest: Parser_match_True)
    from r assms(1) m True obtain ba where p: "Parser_previous ts c0 = Inr ba"
      by (cases "Parser_previous ts c0") auto
    from r assms(1) m True p obtain xa ya where g: "g c0 = Inr (xa, ya)"
      by (cases "g c0") auto
    from r assms(1) m True p g have l: "l (Binary ba expr xa) ya = Inr (e, c)" by simp
    from assms(2) [OF m refl True p] g have "c0 \<le> ya" by blast
    moreover from assms(3) [OF m refl True p g refl] l have "ya \<le> c" by blast
    ultimately show ?thesis using c0 by simp
  qed
qed

lemma unary_cursor:
  assumes "r = (case Parser_match ts cur tys of
                  Inl p \<Rightarrow> Inl p
                | Inr (matched, c) \<Rightarrow>
                    if \<not> matched then prim c
                    else (case Parser_previous ts c of
                            Inl p \<Rightarrow> Inl p
                          | Inr operator \<Rightarrow>
                              (case un c of
                                 Inl p \<Rightarrow> Inl p
                               | Inr (right, c') \<Rightarrow> Inr (Unary operator right, c'))))"
    and "\<And>b x y. Parser_match ts cur tys = Inr b \<Longrightarrow> (x, y) = b \<Longrightarrow> \<not> x \<Longrightarrow>
           \<forall>e c. prim y = Inr (e, c) \<longrightarrow> y \<le> c"
    and "\<And>b x y ba. Parser_match ts cur tys = Inr b \<Longrightarrow> (x, y) = b \<Longrightarrow> \<not> \<not> x \<Longrightarrow>
           Parser_previous ts y = Inr ba \<Longrightarrow> \<forall>e c. un y = Inr (e, c) \<longrightarrow> y \<le> c"
  shows "\<forall>e c. r = Inr (e, c) \<longrightarrow> cur \<le> c"
proof (intro allI impI)
  fix e c assume r: "r = Inr (e, c)"
  with assms(1) obtain matched c0 where m: "Parser_match ts cur tys = Inr (matched, c0)"
    by (cases "Parser_match ts cur tys") auto
  show "cur \<le> c"
  proof (cases matched)
    case False
    with m have "c0 = cur" by (auto dest: Parser_match_False)
    moreover from r assms(1) m False have "prim c0 = Inr (e, c)" by simp
    moreover note assms(2) [OF m refl]
    ultimately show ?thesis using False by blast
  next
    case True
    with m have c0: "c0 = cur + 1" by (auto dest: Parser_match_True)
    from r assms(1) m True obtain ba where p: "Parser_previous ts c0 = Inr ba"
      by (cases "Parser_previous ts c0") auto
    from r assms(1) m True p obtain xa where g: "un c0 = Inr (xa, c)"
      by (cases "un c0") auto
    from True have "\<not> \<not> matched" by simp
    from assms(3) [OF m refl this p] g have "c0 \<le> c" by blast
    then show ?thesis using c0 by simp
  qed
qed

lemma Parser_cursor_partial:
  "Parser_dom (Inl (Inl (Inl (ts, cur)))) \<Longrightarrow>
     \<forall>e c. Parser_expression ts cur = Inr (e, c) \<longrightarrow> cur \<le> c"
  "Parser_dom (Inl (Inl (Inr (ts, cur)))) \<Longrightarrow>
     \<forall>e c. Parser_equality ts cur = Inr (e, c) \<longrightarrow> cur \<le> c"
  "Parser_dom (Inl (Inr (Inl (ts, expr, cur)))) \<Longrightarrow>
     \<forall>e c. equality_loop ts expr cur = Inr (e, c) \<longrightarrow> cur \<le> c"
  "Parser_dom (Inl (Inr (Inr (Inl (ts, cur))))) \<Longrightarrow>
     \<forall>e c. Parser_comparison ts cur = Inr (e, c) \<longrightarrow> cur \<le> c"
  "Parser_dom (Inl (Inr (Inr (Inr (ts, expr, cur))))) \<Longrightarrow>
     \<forall>e c. comparison_loop ts expr cur = Inr (e, c) \<longrightarrow> cur \<le> c"
  "Parser_dom (Inr (Inl (Inl (ts, cur)))) \<Longrightarrow>
     \<forall>e c. Parser_term ts cur = Inr (e, c) \<longrightarrow> cur \<le> c"
  "Parser_dom (Inr (Inl (Inr (Inl (ts, expr, cur))))) \<Longrightarrow>
     \<forall>e c. term_loop ts expr cur = Inr (e, c) \<longrightarrow> cur \<le> c"
  "Parser_dom (Inr (Inl (Inr (Inr (ts, cur))))) \<Longrightarrow>
     \<forall>e c. Parser_factor ts cur = Inr (e, c) \<longrightarrow> cur \<le> c"
  "Parser_dom (Inr (Inr (Inl (ts, expr, cur)))) \<Longrightarrow>
     \<forall>e c. factor_loop ts expr cur = Inr (e, c) \<longrightarrow> cur \<le> c"
  "Parser_dom (Inr (Inr (Inr (Inl (ts, cur))))) \<Longrightarrow>
     \<forall>e c. Parser_unary ts cur = Inr (e, c) \<longrightarrow> cur \<le> c"
  "Parser_dom (Inr (Inr (Inr (Inr (ts, cur))))) \<Longrightarrow>
     \<forall>e c. Parser_primary ts cur = Inr (e, c) \<longrightarrow> cur \<le> c"
proof (induct rule: Parser_pinduct)
  case (1 ts cur)
  then show ?case by (simp add: Parser_expression.psimps)
next
  case (2 ts cur)
  show ?case
    by (rule level_cursor [OF Parser_equality.psimps [OF "2.hyps"(1)] "2.hyps"(2,3)])
next
  case (3 ts expr cur)
  show ?case
    by (rule loop_cursor [OF equality_loop.psimps [OF "3.hyps"(1)] "3.hyps"(2,3)])
next
  case (4 ts cur)
  show ?case
    by (rule level_cursor [OF Parser_comparison.psimps [OF "4.hyps"(1)] "4.hyps"(2,3)])
next
  case (5 ts expr cur)
  show ?case
    by (rule loop_cursor [OF comparison_loop.psimps [OF "5.hyps"(1)] "5.hyps"(2,3)])
next
  case (6 ts cur)
  show ?case
    by (rule level_cursor [OF Parser_term.psimps [OF "6.hyps"(1)] "6.hyps"(2,3)])
next
  case (7 ts expr cur)
  show ?case
    by (rule loop_cursor [OF term_loop.psimps [OF "7.hyps"(1)] "7.hyps"(2,3)])
next
  case (8 ts cur)
  show ?case
    by (rule level_cursor [OF Parser_factor.psimps [OF "8.hyps"(1)] "8.hyps"(2,3)])
next
  case (9 ts expr cur)
  show ?case
    by (rule loop_cursor [OF factor_loop.psimps [OF "9.hyps"(1)] "9.hyps"(2,3)])
next
  case (10 ts cur)
  show ?case
    by (rule unary_cursor [OF Parser_unary.psimps [OF "10.hyps"(1)] "10.hyps"(2,3)])
next
  case (11 ts cur)
  show ?case
  proof (intro allI impI)
    fix e c assume r: "Parser_primary ts cur = Inr (e, c)"
    note ps = Parser_primary.psimps [OF "11.hyps"(1)]
    obtain m1 c1 where m1: "Parser_match ts cur [NUMBER, STRING] = Inr (m1, c1)"
      using r ps by (cases "Parser_match ts cur [NUMBER, STRING]") auto
    show "cur \<le> c"
    proof (cases m1)
      case True
      with r ps m1 have "c = c1" by (auto split: sum.splits)
      with m1 True show ?thesis by (auto dest: Parser_match_True)
    next
      case n1: False
      with m1 have e1: "c1 = cur" by (auto dest: Parser_match_False)
      obtain m2 c2 where m2: "Parser_match ts c1 [TRUE] = Inr (m2, c2)"
        using r ps m1 n1 by (cases "Parser_match ts c1 [TRUE]") auto
      show ?thesis
      proof (cases m2)
        case True
        with r ps m1 n1 m2 have "c = c2" by simp
        with m2 True e1 show ?thesis by (auto dest: Parser_match_True)
      next
        case n2: False
        with m2 have e2: "c2 = c1" by (auto dest: Parser_match_False)
        obtain m3 c3 where m3: "Parser_match ts c2 [FALSE] = Inr (m3, c3)"
          using r ps m1 n1 m2 n2 by (cases "Parser_match ts c2 [FALSE]") auto
        show ?thesis
        proof (cases m3)
          case True
          with r ps m1 n1 m2 n2 m3 have "c = c3" by simp
          with m3 True e1 e2 show ?thesis by (auto dest: Parser_match_True)
        next
          case n3: False
          with m3 have e3: "c3 = c2" by (auto dest: Parser_match_False)
          obtain m4 c4 where m4: "Parser_match ts c3 [NIL] = Inr (m4, c4)"
            using r ps m1 n1 m2 n2 m3 n3 by (cases "Parser_match ts c3 [NIL]") auto
          show ?thesis
          proof (cases m4)
            case True
            with r ps m1 n1 m2 n2 m3 n3 m4 have "c = c4" by simp
            with m4 True e1 e2 e3 show ?thesis by (auto dest: Parser_match_True)
          next
            case n4: False
            with m4 have e4: "c4 = c3" by (auto dest: Parser_match_False)
            obtain m5 c5 where m5: "Parser_match ts c4 [LEFT_PAREN] = Inr (m5, c5)"
              using r ps m1 n1 m2 n2 m3 n3 m4 n4
              by (cases "Parser_match ts c4 [LEFT_PAREN]") auto
            show ?thesis
            proof (cases m5)
              case False
              with r ps m1 n1 m2 n2 m3 n3 m4 n4 m5 show ?thesis
                by (auto split: sum.splits)
            next
              case True
              with m5 have e5: "c5 = c4 + 1" by (auto dest: Parser_match_True)
              obtain x c6 where ex: "Parser_expression ts c5 = Inr (x, c6)"
                using r ps m1 n1 m2 n2 m3 n3 m4 n4 m5 True
                by (cases "Parser_expression ts c5") auto
              from "11.hyps"(2) [OF m1 refl n1 m2 refl n2 m3 refl n3 m4 refl n4 m5 refl True] ex
              have "c5 \<le> c6" by blast
              moreover from r ps m1 n1 m2 n2 m3 n3 m4 n4 m5 True ex have "c6 \<le> c"
                by (auto split: sum.splits dest: Parser_consume_Inr)
              ultimately show ?thesis using e1 e2 e3 e4 e5 by simp
            qed
          qed
        qed
      qed
    qed
  qed
qed

termination Parser_expression
proof (relation "inv_image (less_than <*lex*> less_than)
    (\<lambda>x. case x of
       Inl (Inl (Inl (ts, cur))) \<Rightarrow> (length ts - cur, 10::nat)
     | Inl (Inl (Inr (ts, cur))) \<Rightarrow> (length ts - cur, 9)
     | Inl (Inr (Inl (ts, expr, cur))) \<Rightarrow> (length ts - cur, 0)
     | Inl (Inr (Inr (Inl (ts, cur)))) \<Rightarrow> (length ts - cur, 8)
     | Inl (Inr (Inr (Inr (ts, expr, cur)))) \<Rightarrow> (length ts - cur, 0)
     | Inr (Inl (Inl (ts, cur))) \<Rightarrow> (length ts - cur, 7)
     | Inr (Inl (Inr (Inl (ts, expr, cur)))) \<Rightarrow> (length ts - cur, 0)
     | Inr (Inl (Inr (Inr (ts, cur)))) \<Rightarrow> (length ts - cur, 6)
     | Inr (Inr (Inl (ts, expr, cur))) \<Rightarrow> (length ts - cur, 0)
     | Inr (Inr (Inr (Inl (ts, cur)))) \<Rightarrow> (length ts - cur, 5)
     | Inr (Inr (Inr (Inr (ts, cur)))) \<Rightarrow> (length ts - cur, 4))", goal_cases)
  case 1
  show ?case by (rule wf_inv_image, rule wf_lex_prod; rule wf_less_than)
next
  case 2 then show ?case by simp
next
  case 3 then show ?case by simp
next
  case (4 ts cur b x y)
  with Parser_cursor_partial(4) [of ts cur] show ?case by auto
next
  case 5 then show ?case by (auto dest: Parser_match_True)
next
  case (6 ts expr cur b x y ba bb xa ya)
  with Parser_cursor_partial(4) [of ts y] show ?case by (auto dest!: Parser_match_True)
next
  case 7 then show ?case by simp
next
  case (8 ts cur b x y)
  with Parser_cursor_partial(6) [of ts cur] show ?case by auto
next
  case 9 then show ?case by (auto dest: Parser_match_True)
next
  case (10 ts expr cur b x y ba bb xa ya)
  with Parser_cursor_partial(6) [of ts y] show ?case by (auto dest!: Parser_match_True)
next
  case 11 then show ?case by simp
next
  case (12 ts cur b x y)
  with Parser_cursor_partial(8) [of ts cur] show ?case by auto
next
  case 13 then show ?case by (auto dest: Parser_match_True)
next
  case (14 ts expr cur b x y ba bb xa ya)
  with Parser_cursor_partial(8) [of ts y] show ?case by (auto dest!: Parser_match_True)
next
  case 15 then show ?case by simp
next
  case (16 ts cur b x y)
  with Parser_cursor_partial(10) [of ts cur] show ?case by auto
next
  case 17 then show ?case by (auto dest: Parser_match_True)
next
  case (18 ts expr cur b x y ba bb xa ya)
  with Parser_cursor_partial(10) [of ts y] show ?case by (auto dest!: Parser_match_True)
next
  case 19 then show ?case by (auto dest: Parser_match_False)
next
  case 20 then show ?case by (auto dest: Parser_match_True)
next
  case 21 then show ?case by (auto dest!: Parser_match_True Parser_match_False)
qed

declare Parser_expression.simps [simp del] Parser_equality.simps [simp del]
  equality_loop.simps [simp del] Parser_comparison.simps [simp del]
  comparison_loop.simps [simp del] Parser_term.simps [simp del] term_loop.simps [simp del]
  Parser_factor.simps [simp del] factor_loop.simps [simp del] Parser_unary.simps [simp del]
  Parser_primary.simps [simp del]

text \<open>
  \<open>Parse\<close> on \<open>NewParser(tokens)\<close>, whose cursor is 0. The result is the Go pair
  \<open>(expr, err)\<close>. The deferred function recovers a panic and asserts that it is a
  \<open>ParseError\<close>; a run-time error fails that assertion and panics again, so \<open>Parse\<close>
  does not return: \<open>None\<close>.
\<close>

definition Parser_Parse :: "Token list \<Rightarrow> (Expr option \<times> ParseError option) option" where
  "Parser_Parse ts =
     (case Parser_expression ts 0 of
        Inr (expr, c) \<Rightarrow> Some (Some expr, None)
      | Inl (PanicParseError err) \<Rightarrow> Some (None, Some err)
      | Inl PanicRuntime \<Rightarrow> None)"

subsection \<open>AstPrinter\<close>

text \<open>
  \<open>parenthesize\<close> receives the renderings of the sub-expressions, which the source
  computes inside its loop by \<open>expr.accept(astp)\<close>.
\<close>

definition AstPrinter_parenthesize :: "string \<Rightarrow> string list \<Rightarrow> string" where
  "AstPrinter_parenthesize name rendered =
     ''('' @ name @ concat (map (\<lambda>r. '' '' @ r) rendered) @ '')''"

fun AstPrinter_Print :: "GoFloat \<Rightarrow> Expr \<Rightarrow> string" where
  "AstPrinter_Print G (Binary operator left right) =
     AstPrinter_parenthesize (Lexeme operator) [AstPrinter_Print G left, AstPrinter_Print G right]"
| "AstPrinter_Print G (Grouping expr) =
     AstPrinter_parenthesize ''group'' [AstPrinter_Print G expr]"
| "AstPrinter_Print G (Literal v) = (if v = VNil then ''nil'' else fmt_v G v)"
| "AstPrinter_Print G (Unary operator right) =
     AstPrinter_parenthesize (Lexeme operator) [AstPrinter_Print G right]"

section \<open>Interpreter (interpreter.go)\<close>

datatype RuntimeError = RuntimeError string

text \<open>\<open>Token.String\<close>, which \<open>%v\<close> uses for a token.\<close>

definition Token_String :: "GoFloat \<Rightarrow> Token \<Rightarrow> string" where
  "Token_String G t =
     TokenType_String (Type t) @ '' '' @ Lexeme t @ '' '' @ fmt_v G (LiteralVal t)"

subsection \<open>The operations of Go on \<open>float64\<close> that the bit pattern determines\<close>

text \<open>
  A NaN has all exponent bits set and a fraction that is not zero. \<open>==\<close> is false when
  an operand is a NaN and makes the two zeros equal. The order of two numbers is the
  order of their magnitudes, signed. Unary minus flips the sign bit.
\<close>

definition float_isNaN :: "float64 \<Rightarrow> bool" where
  "float_isNaN x = (take_bit 63 x > 0x7FF0000000000000)"

definition float_eq :: "float64 \<Rightarrow> float64 \<Rightarrow> bool" where
  "float_eq x y =
     (\<not> float_isNaN x \<and> \<not> float_isNaN y \<and> (x = y \<or> take_bit 63 x = 0 \<and> take_bit 63 y = 0))"

definition float_key :: "float64 \<Rightarrow> int" where
  "float_key x = (if bit x 63 then - uint (take_bit 63 x) else uint (take_bit 63 x))"

definition float_lt :: "float64 \<Rightarrow> float64 \<Rightarrow> bool" where
  "float_lt x y = (\<not> float_isNaN x \<and> \<not> float_isNaN y \<and> float_key x < float_key y)"

definition float_le :: "float64 \<Rightarrow> float64 \<Rightarrow> bool" where
  "float_le x y = (\<not> float_isNaN x \<and> \<not> float_isNaN y \<and> float_key x \<le> float_key y)"

definition float_neg :: "float64 \<Rightarrow> float64" where
  "float_neg x = xor x (push_bit 63 1)"

subsection \<open>Evaluation\<close>

text \<open>
  \<open>checkNumberOperands\<close> and \<open>checkNumberOperand\<close> panic or return nothing; their
  callers then assert \<open>float64\<close> on the operands, which cannot fail after the check.
  The model returns the numbers with the check.
\<close>

definition checkNumberOperands ::
  "GoFloat \<Rightarrow> Token \<Rightarrow> Value \<Rightarrow> Value \<Rightarrow> RuntimeError + float64 \<times> float64" where
  "checkNumberOperands G token left right =
     (case (left, right) of
        (VNum x, VNum y) \<Rightarrow> Inr (x, y)
      | _ \<Rightarrow> Inl (RuntimeError (''Operands must be numbers: '' @ Token_String G token)))"

definition checkNumberOperand :: "GoFloat \<Rightarrow> Token \<Rightarrow> Value \<Rightarrow> RuntimeError + float64" where
  "checkNumberOperand G token operand =
     (case operand of
        VNum x \<Rightarrow> Inr x
      | _ \<Rightarrow> Inl (RuntimeError (''Operand must be number: '' @ Token_String G token)))"

definition isTruthy :: "Value \<Rightarrow> bool" where
  "isTruthy obj =
     (if obj = VNil then False
      else (case obj of VBool v \<Rightarrow> v | _ \<Rightarrow> True))"

text \<open>\<open>reflect.DeepEqual\<close> on two of the program's values.\<close>

definition DeepEqual :: "Value \<Rightarrow> Value \<Rightarrow> bool" where
  "DeepEqual a b =
     (case (a, b) of
        (VNil, VNil) \<Rightarrow> True
      | (VBool x, VBool y) \<Rightarrow> x = y
      | (VNum x, VNum y) \<Rightarrow> float_eq x y
      | (VStr x, VStr y) \<Rightarrow> x = y
      | _ \<Rightarrow> False)"

definition isEqual :: "Value \<Rightarrow> Value \<Rightarrow> bool" where
  "isEqual a b =
     (if a = VNil \<and> b = VNil then True
      else if a = VNil then False
      else DeepEqual a b)"

text \<open>The \<open>switch\<close> of \<open>visitUnaryExpr\<close> and of \<open>visitBinaryExpr\<close>, on evaluated operands.\<close>

definition unary_switch :: "GoFloat \<Rightarrow> Token \<Rightarrow> Value \<Rightarrow> RuntimeError + Value" where
  "unary_switch G operator operand =
     (if Type operator = MINUS then
        (case checkNumberOperand G operator operand of
           Inl e \<Rightarrow> Inl e
         | Inr x \<Rightarrow> Inr (VNum (float_neg x)))
      else if Type operator = BANG then Inr (VBool (\<not> isTruthy operand))
      else Inr VNil)"

definition arith ::
  "GoFloat \<Rightarrow> Token \<Rightarrow> Value \<Rightarrow> Value \<Rightarrow> (float64 \<Rightarrow> float64 \<Rightarrow> Value) \<Rightarrow> RuntimeError + Value" where
  "arith G operator left right f =
     (case checkNumberOperands G operator left right of
        Inl e \<Rightarrow> Inl e
      | Inr (x, y) \<Rightarrow> Inr (f x y))"

definition binary_switch :: "GoFloat \<Rightarrow> Token \<Rightarrow> Value \<Rightarrow> Value \<Rightarrow> RuntimeError + Value" where
  "binary_switch G operator left right =
     (if Type operator = MINUS then arith G operator left right (\<lambda>x y. VNum (fsub G x y))
      else if Type operator = SLASH then arith G operator left right (\<lambda>x y. VNum (fquo G x y))
      else if Type operator = STAR then arith G operator left right (\<lambda>x y. VNum (fmul G x y))
      else if Type operator = PLUS then
        (case (left, right) of
           (VNum x, VNum y) \<Rightarrow> Inr (VNum (fadd G x y))
         | (VStr x, VStr y) \<Rightarrow> Inr (VStr (x @ y))
         | _ \<Rightarrow> Inl (RuntimeError (''Operands must be two numbers or two strings: '' @
                                    Token_String G operator)))
      else if Type operator = GREATER then
        arith G operator left right (\<lambda>x y. VBool (float_lt y x))
      else if Type operator = GREATER_EQUAL then
        arith G operator left right (\<lambda>x y. VBool (float_le y x))
      else if Type operator = LESS then
        arith G operator left right (\<lambda>x y. VBool (float_lt x y))
      else if Type operator = LESS_EQUAL then
        arith G operator left right (\<lambda>x y. VBool (float_le x y))
      else if Type operator = EQUAL_EQUAL then Inr (VBool (isEqual left right))
      else if Type operator = BANG_EQUAL then Inr (VBool (\<not> isEqual left right))
      else if Type operator = OR then Inr (VBool (isTruthy left \<or> isTruthy right))
      else if Type operator = AND then Inr (VBool (isTruthy left \<and> isTruthy right))
      else Inr VNil)"

text \<open>
  \<open>evaluate\<close> with the four \<open>visit\<close> methods it dispatches to. \<open>Inl\<close> is the
  \<open>RuntimeError\<close> the evaluation panics with.
\<close>

fun Interpreter_evaluate :: "GoFloat \<Rightarrow> Expr \<Rightarrow> RuntimeError + Value" where
  "Interpreter_evaluate G (Literal v) = Inr v"
| "Interpreter_evaluate G (Grouping expr) = Interpreter_evaluate G expr"
| "Interpreter_evaluate G (Unary operator right) =
     (case Interpreter_evaluate G right of
        Inl e \<Rightarrow> Inl e
      | Inr operand \<Rightarrow> unary_switch G operator operand)"
| "Interpreter_evaluate G (Binary operator l r) =
     (case Interpreter_evaluate G l of
        Inl e \<Rightarrow> Inl e
      | Inr left \<Rightarrow>
          (case Interpreter_evaluate G r of
             Inl e \<Rightarrow> Inl e
           | Inr right \<Rightarrow> binary_switch G operator left right))"

definition Interpreter_interpret :: "GoFloat \<Rightarrow> Expr \<Rightarrow> string \<times> RuntimeError option" where
  "Interpreter_interpret G expr =
     (case Interpreter_evaluate G expr of
        Inl e \<Rightarrow> ([], Some e)
      | Inr v \<Rightarrow> (fmt_v G v, None))"

section \<open>The pipeline and closed examples\<close>

text \<open>Scan, parse, evaluate: the evaluation of the expression parsed from a source text.\<close>

definition evaluate_source :: "GoFloat \<Rightarrow> string \<Rightarrow> (RuntimeError + Value) option" where
  "evaluate_source G src =
     (case Scanner_ScanTokens G (NewScanner src) of
        None \<Rightarrow> None
      | Some (ts, errs) \<Rightarrow>
          (case Parser_Parse ts of
             Some (Some expr, None) \<Rightarrow> Some (Interpreter_evaluate G expr)
           | _ \<Rightarrow> None))"

text \<open>Scan, parse, print: the rendering of the expression parsed from a source text.\<close>

definition print_source :: "GoFloat \<Rightarrow> string \<Rightarrow> string option" where
  "print_source G src =
     (case Scanner_ScanTokens G (NewScanner src) of
        None \<Rightarrow> None
      | Some (ts, errs) \<Rightarrow>
          (case Parser_Parse ts of
             Some (Some expr, None) \<Rightarrow> Some (AstPrinter_Print G expr)
           | _ \<Rightarrow> None))"

text \<open>
  An instance of the Go operations for closed examples. It is right on the inputs the
  examples use (the literals 1, 2 and 3, and 1 + 2) and arbitrary elsewhere; every theorem
  below holds for all instances.
\<close>

definition G_example :: GoFloat where
  "G_example =
     \<lparr>fadd = (\<lambda>x y. if x = 0x3FF0000000000000 \<and> y = 0x4000000000000000
                     then 0x4008000000000000 else 0),
      fsub = (\<lambda>x y. 0), fmul = (\<lambda>x y. 0), fquo = (\<lambda>x y. 0),
      ParseFloat = (\<lambda>s. if s = ''1'' then 0x3FF0000000000000
                         else if s = ''2'' then 0x4000000000000000
                         else if s = ''3'' then 0x4008000000000000 else 0),
      FormatFloat = (\<lambda>x. if x = 0x3FF0000000000000 then ''1''
                          else if x = 0x4000000000000000 then ''2''
                          else if x = 0x4008000000000000 then ''3'' else ''0'')\<rparr>"

text \<open>Vocabulary of the properties below.\<close>

definition unexpected :: "char \<Rightarrow> bool" where
  "unexpected c \<longleftrightarrow>
     c \<notin> set ''(){},.-+;*!=<>/'' \<and> c \<noteq> CHR '' '' \<and> c \<noteq> CHR 0x09 \<and> c \<noteq> CHR 0x0D \<and>
     c \<noteq> CHR 0x0A \<and> c \<noteq> CHR ''\"'' \<and> \<not> isDigit c \<and> \<not> isAlpha c"

definition unterminated :: "Scanner \<Rightarrow> bool" where
  "unterminated s \<longleftrightarrow>
     current s < length (source s) \<and> source s ! current s = CHR ''\"'' \<and>
     CHR ''\"'' \<notin> set (drop (current s + 1) (source s))"

definition whitespace :: "char \<Rightarrow> bool" where
  "whitespace c \<longleftrightarrow> c = CHR '' '' \<or> c = CHR 0x09 \<or> c = CHR 0x0D \<or> c = CHR 0x0A"

definition EOF_token :: "int \<Rightarrow> Token" where
  "EOF_token l = \<lparr>Type = EOF, Lexeme = [], LiteralVal = VNil, Line = l\<rparr>"

text \<open>
  The four binary levels of the grammar: the function of the level, the function it calls
  for its operands, its loop, and the operators the loop matches.
\<close>

datatype Level = EqualityLevel | ComparisonLevel | TermLevel | FactorLevel

fun level_parser :: "Level \<Rightarrow> Token list \<Rightarrow> nat \<Rightarrow> ParsePanic + Expr \<times> nat" where
  "level_parser EqualityLevel = Parser_equality"
| "level_parser ComparisonLevel = Parser_comparison"
| "level_parser TermLevel = Parser_term"
| "level_parser FactorLevel = Parser_factor"

fun level_operand :: "Level \<Rightarrow> Token list \<Rightarrow> nat \<Rightarrow> ParsePanic + Expr \<times> nat" where
  "level_operand EqualityLevel = Parser_comparison"
| "level_operand ComparisonLevel = Parser_term"
| "level_operand TermLevel = Parser_factor"
| "level_operand FactorLevel = Parser_unary"

fun level_loop :: "Level \<Rightarrow> Token list \<Rightarrow> Expr \<Rightarrow> nat \<Rightarrow> ParsePanic + Expr \<times> nat" where
  "level_loop EqualityLevel = equality_loop"
| "level_loop ComparisonLevel = comparison_loop"
| "level_loop TermLevel = term_loop"
| "level_loop FactorLevel = factor_loop"

fun level_operators :: "Level \<Rightarrow> TokenType list" where
  "level_operators EqualityLevel = [EQUAL_EQUAL, BANG_EQUAL]"
| "level_operators ComparisonLevel = [GREATER, GREATER_EQUAL, LESS, LESS_EQUAL]"
| "level_operators TermLevel = [PLUS, MINUS, OR]"
| "level_operators FactorLevel = [STAR, SLASH, AND]"

text \<open>
  \<open>guarded ts cur r\<close>: when an end-of-input token stands at or after the cursor, the
  result \<open>r\<close> of a parser function started at \<open>cur\<close> is not a run-time panic, and the
  cursor it leaves is not before \<open>cur\<close> and not beyond that token.
\<close>

definition guarded :: "Token list \<Rightarrow> nat \<Rightarrow> ParsePanic + Expr \<times> nat \<Rightarrow> bool" where
  "guarded ts cur r \<longleftrightarrow>
     (\<forall>k. cur \<le> k \<and> k < length ts \<and> Type (ts ! k) = EOF \<longrightarrow>
          r \<noteq> Inl PanicRuntime \<and> (\<forall>e c. r = Inr (e, c) \<longrightarrow> cur \<le> c \<and> c \<le> k))"

section \<open>Properties\<close>

lemmas scan_simps =
  Scanner_ScanTokens_def NewScanner_def ScanTokens_loop.simps Scanner_isAtEnd_def
  Scanner_scanToken_def Scanner_advance_def Scanner_match_def Scanner_addToken_def
  Scanner_addTokenLiteral_def slice_def NewToken_def Scanner_identifier_def
  identifier_loop.simps Scanner_number_def digit_loop.simps Scanner_string_def
  string_loop.simps comment_loop.simps Scanner_peek_def Scanner_peekNext_def
  Scanner_error_def isAlpha_def isDigit_def isAlphaNumeric_def keywords_map_def

lemmas parse_simps =
  Parser_Parse_def Parser_expression.simps Parser_equality.simps equality_loop.simps
  Parser_comparison.simps comparison_loop.simps Parser_term.simps term_loop.simps
  Parser_factor.simps factor_loop.simps Parser_unary.simps Parser_primary.simps
  Parser_match.simps Parser_checkTokenType_def Parser_isAtEnd_def Parser_advance_def
  Parser_previous_def Parser_peek_def Parser_consume_def Parser_error_def

lemma scan_bang_nil:
  "Scanner_ScanTokens G (NewScanner ''!nil'') =
     Some ([\<lparr>Type = BANG, Lexeme = ''!'', LiteralVal = VNil, Line = 0\<rparr>,
            \<lparr>Type = NIL, Lexeme = ''nil'', LiteralVal = VNil, Line = 0\<rparr>,
            \<lparr>Type = EOF, Lexeme = [], LiteralVal = VNil, Line = 0\<rparr>], [])"
  by (simp add: scan_simps)

lemma scan_bang_zero:
  "Scanner_ScanTokens G (NewScanner ''!0'') =
     Some ([\<lparr>Type = BANG, Lexeme = ''!'', LiteralVal = VNil, Line = 0\<rparr>,
            \<lparr>Type = NUMBER, Lexeme = ''0'', LiteralVal = VNum (ParseFloat G ''0''), Line = 0\<rparr>,
            \<lparr>Type = EOF, Lexeme = [], LiteralVal = VNil, Line = 0\<rparr>], [])"
  by (simp add: scan_simps)

lemma parse_bang_nil:
  "Parser_Parse [\<lparr>Type = BANG, Lexeme = ''!'', LiteralVal = VNil, Line = 0\<rparr>,
            \<lparr>Type = NIL, Lexeme = ''nil'', LiteralVal = VNil, Line = 0\<rparr>,
            \<lparr>Type = EOF, Lexeme = [], LiteralVal = VNil, Line = 0\<rparr>] =
     Some (Some (Unary \<lparr>Type = BANG, Lexeme = ''!'', LiteralVal = VNil, Line = 0\<rparr>
                   (Literal (VStr ''null''))), None)"
  by (simp add: parse_simps)

lemma parse_bang_zero:
  "Parser_Parse [\<lparr>Type = BANG, Lexeme = ''!'', LiteralVal = VNil, Line = 0\<rparr>,
            \<lparr>Type = NUMBER, Lexeme = ''0'', LiteralVal = VNum z, Line = 0\<rparr>,
            \<lparr>Type = EOF, Lexeme = [], LiteralVal = VNil, Line = 0\<rparr>] =
     Some (Some (Unary \<lparr>Type = BANG, Lexeme = ''!'', LiteralVal = VNil, Line = 0\<rparr>
                   (Literal (VNum z))), None)"
  by (simp add: parse_simps)

text \<open>
  C1. The spec has \<open>!nil\<close> evaluate to true and \<open>!0\<close> to false. In the code
  \<open>primary\<close> builds the literal of \<open>nil\<close> as the string \<open>"null"\<close>, which is truthy,
  although \<open>isTruthy\<close> has a branch for the absent value: evaluating the expression parsed
  from \<open>!nil\<close> yields false. Evaluating \<open>!0\<close> yields false, as the spec says.
\<close>

theorem bang_nil_evaluates_false:
  "evaluate_source G ''!nil'' = Some (Inr (VBool False)) \<and>
   evaluate_source G ''!0'' = Some (Inr (VBool False))"
  by (simp add: evaluate_source_def scan_bang_nil scan_bang_zero parse_bang_nil parse_bang_zero
        unary_switch_def isTruthy_def)

text \<open>
  C2. For a Binary node whose operator is \<open>or\<close> or \<open>and\<close>, once the left operand has
  evaluated to a value: a runtime error of the right operand is the result of the whole
  node, whatever the truthiness of the left value; and when the right operand evaluates
  too, the result is the disjunction (for \<open>and\<close> the conjunction) of the two
  truthinesses. No operand type is excluded.
\<close>

theorem or_and_evaluate_both_operands:
  assumes "Type operator = OR \<or> Type operator = AND"
    and "Interpreter_evaluate G L = Inr l"
  shows "(\<forall>e. Interpreter_evaluate G R = Inl e \<longrightarrow>
            Interpreter_evaluate G (Binary operator L R) = Inl e) \<and>
         (\<forall>r. Interpreter_evaluate G R = Inr r \<longrightarrow>
            Interpreter_evaluate G (Binary operator L R) =
              Inr (VBool (if Type operator = OR then isTruthy l \<or> isTruthy r
                          else isTruthy l \<and> isTruthy r)))"
  using assms by (auto simp: binary_switch_def)

theorem or_and_evaluate_both_operands_witness:
  "Interpreter_evaluate G_example
     (Binary \<lparr>Type = OR, Lexeme = ''or'', LiteralVal = VNil, Line = 0\<rparr>
        (Literal (VBool True))
        (Unary \<lparr>Type = MINUS, Lexeme = ''-'', LiteralVal = VNil, Line = 0\<rparr> (Literal (VStr ''a'')))) =
     Inl (RuntimeError ''Operand must be number: MINUS - <nil>'') \<and>
   Interpreter_evaluate G_example
     (Binary \<lparr>Type = AND, Lexeme = ''and'', LiteralVal = VNil, Line = 0\<rparr>
        (Literal (VNum 0)) (Literal (VStr []))) = Inr (VBool True) \<and>
   Interpreter_evaluate G_example
     (Binary \<lparr>Type = OR, Lexeme = ''or'', LiteralVal = VNil, Line = 0\<rparr>
        (Literal VNil) (Literal (VBool False))) = Inr (VBool False) \<and>
   Interpreter_evaluate G_example
     (Binary \<lparr>Type = AND, Lexeme = ''and'', LiteralVal = VNil, Line = 0\<rparr>
        (Literal (VBool True)) (Literal VNil)) = Inr (VBool False)"
  using or_and_evaluate_both_operands [of "\<lparr>Type = OR, Lexeme = ''or'', LiteralVal = VNil, Line = 0\<rparr>"
      G_example "Literal VNil" VNil "Literal (VBool False)"]
    or_and_evaluate_both_operands [of "\<lparr>Type = AND, Lexeme = ''and'', LiteralVal = VNil, Line = 0\<rparr>"
      G_example "Literal (VBool True)" "VBool True" "Literal VNil"]
    or_and_evaluate_both_operands [of "\<lparr>Type = OR, Lexeme = ''or'', LiteralVal = VNil, Line = 0\<rparr>"
      G_example "Literal (VBool True)" "VBool True"
      "Unary \<lparr>Type = MINUS, Lexeme = ''-'', LiteralVal = VNil, Line = 0\<rparr> (Literal (VStr ''a''))"]
    or_and_evaluate_both_operands [of "\<lparr>Type = AND, Lexeme = ''and'', LiteralVal = VNil, Line = 0\<rparr>"
      G_example "Literal (VNum 0)" "VNum 0" "Literal (VStr [])"]
  by (simp add: unary_switch_def checkNumberOperand_def Token_String_def fmt_v_def isTruthy_def)

text \<open>
  C3. The tokens of \<open>1 2\<close> are those of the expression \<open>1\<close> followed by one more
  NUMBER token before the end-of-input token. \<open>Parse\<close> returns the tree of \<open>1\<close>, the
  same as for the tokens of \<open>1\<close> alone, and no error.
\<close>

theorem parse_ignores_trailing_tokens:
  "Scanner_ScanTokens G (NewScanner ''1 2'') =
     Some ([\<lparr>Type = NUMBER, Lexeme = ''1'', LiteralVal = VNum (ParseFloat G ''1''), Line = 0\<rparr>,
            \<lparr>Type = NUMBER, Lexeme = ''2'', LiteralVal = VNum (ParseFloat G ''2''), Line = 0\<rparr>,
            \<lparr>Type = EOF, Lexeme = [], LiteralVal = VNil, Line = 0\<rparr>], []) \<and>
   Parser_Parse
     [\<lparr>Type = NUMBER, Lexeme = ''1'', LiteralVal = VNum (ParseFloat G ''1''), Line = 0\<rparr>,
      \<lparr>Type = NUMBER, Lexeme = ''2'', LiteralVal = VNum (ParseFloat G ''2''), Line = 0\<rparr>,
      \<lparr>Type = EOF, Lexeme = [], LiteralVal = VNil, Line = 0\<rparr>] =
     Some (Some (Literal (VNum (ParseFloat G ''1''))), None) \<and>
   Parser_Parse
     [\<lparr>Type = NUMBER, Lexeme = ''1'', LiteralVal = VNum (ParseFloat G ''1''), Line = 0\<rparr>,
      \<lparr>Type = EOF, Lexeme = [], LiteralVal = VNil, Line = 0\<rparr>] =
     Some (Some (Literal (VNum (ParseFloat G ''1''))), None)"
proof (intro conjI)
  show "Scanner_ScanTokens G (NewScanner ''1 2'') =
     Some ([\<lparr>Type = NUMBER, Lexeme = ''1'', LiteralVal = VNum (ParseFloat G ''1''), Line = 0\<rparr>,
            \<lparr>Type = NUMBER, Lexeme = ''2'', LiteralVal = VNum (ParseFloat G ''2''), Line = 0\<rparr>,
            \<lparr>Type = EOF, Lexeme = [], LiteralVal = VNil, Line = 0\<rparr>], [])"
    by (simp add: scan_simps)
qed (simp_all add: parse_simps)

lemma float_eq_sym: "float_eq x y = float_eq y x"
  by (auto simp: float_eq_def)

lemma float_eq_refl: "\<not> float_isNaN x \<Longrightarrow> float_eq x x"
  by (simp add: float_eq_def)

text \<open>
  C4, as stated, fails on a NaN: \<open>isEqual\<close> compares two \<open>float64\<close> with Go's \<open>==\<close>
  (through \<open>reflect.DeepEqual\<close>), and a NaN is not equal to itself.
\<close>

theorem isEqual_NaN_counterexample:
  "\<not> isEqual (VNum 0x7FF8000000000000) (VNum 0x7FF8000000000000)"
  by (simp add: isEqual_def DeepEqual_def float_eq_def float_isNaN_def)

text \<open>
  C4, amended. \<open>isEqual\<close> is symmetric on all values; it is reflexive on every value
  that is not a NaN number, and on no NaN; the absent value is equal to itself and to no other value, on
  either side; and \<open>==\<close> evaluates to \<open>isEqual\<close> of its operands.
\<close>

theorem isEqual_symmetric_reflexive_except_NaN:
  "(isEqual a b = isEqual b a) \<and>
   ((\<forall>x. a = VNum x \<longrightarrow> \<not> float_isNaN x) \<longrightarrow> isEqual a a) \<and>
   (\<forall>x. float_isNaN x \<longrightarrow> \<not> isEqual (VNum x) (VNum x)) \<and>
   (isEqual VNil b \<longleftrightarrow> b = VNil) \<and> (isEqual a VNil \<longleftrightarrow> a = VNil) \<and>
   (Type operator = EQUAL_EQUAL \<longrightarrow>
      Interpreter_evaluate G (Binary operator (Literal a) (Literal b)) = Inr (VBool (isEqual a b)))"
proof -
  have "\<forall>x. float_isNaN x \<longrightarrow> \<not> isEqual (VNum x) (VNum x)"
    by (simp add: isEqual_def DeepEqual_def float_eq_def)
  moreover have "(isEqual a b = isEqual b a) \<and>
      ((\<forall>x. a = VNum x \<longrightarrow> \<not> float_isNaN x) \<longrightarrow> isEqual a a) \<and>
      (isEqual VNil b \<longleftrightarrow> b = VNil) \<and> (isEqual a VNil \<longleftrightarrow> a = VNil) \<and>
      (Type operator = EQUAL_EQUAL \<longrightarrow>
         Interpreter_evaluate G (Binary operator (Literal a) (Literal b)) =
           Inr (VBool (isEqual a b)))"
    by (cases a; cases b)
       (auto simp: isEqual_def DeepEqual_def float_eq_sym float_eq_refl binary_switch_def)
  ultimately show ?thesis by blast
qed

theorem isEqual_symmetric_reflexive_except_NaN_witness:
  "isEqual (VNum 0) (VNum 0) \<and> isEqual (VNum 0) (VNum 0x8000000000000000) \<and>
   Interpreter_evaluate G_example
     (Binary \<lparr>Type = EQUAL_EQUAL, Lexeme = ''=='', LiteralVal = VNil, Line = 0\<rparr>
        (Literal (VNum 0)) (Literal (VNum 0x8000000000000000))) = Inr (VBool True)"
  using isEqual_symmetric_reflexive_except_NaN [of "VNum 0" "VNum 0x8000000000000000"
      "\<lparr>Type = EQUAL_EQUAL, Lexeme = ''=='', LiteralVal = VNil, Line = 0\<rparr>" G_example]
  by (simp add: float_isNaN_def isEqual_def DeepEqual_def float_eq_def)

text \<open>
  C7. A Binary \<open>+\<close> node whose operands evaluate to values: two numbers give their sum,
  two strings their concatenation, and every other pair of kinds the runtime error
  "Operands must be two numbers or two strings: " followed by the operator token.
\<close>

theorem plus_numbers_strings_or_error:
  assumes "Type operator = PLUS"
    and "Interpreter_evaluate G L = Inr l"
    and "Interpreter_evaluate G R = Inr r"
  shows "(\<forall>x y. l = VNum x \<and> r = VNum y \<longrightarrow>
            Interpreter_evaluate G (Binary operator L R) = Inr (VNum (fadd G x y))) \<and>
         (\<forall>x y. l = VStr x \<and> r = VStr y \<longrightarrow>
            Interpreter_evaluate G (Binary operator L R) = Inr (VStr (x @ y))) \<and>
         (\<not> (\<exists>x y. l = VNum x \<and> r = VNum y) \<and> \<not> (\<exists>x y. l = VStr x \<and> r = VStr y) \<longrightarrow>
            Interpreter_evaluate G (Binary operator L R) =
              Inl (RuntimeError (''Operands must be two numbers or two strings: '' @
                                 Token_String G operator)))"
  using assms by (cases l; cases r) (auto simp: binary_switch_def)

theorem plus_numbers_strings_or_error_witness:
  "Interpreter_evaluate G_example
     (Binary \<lparr>Type = PLUS, Lexeme = ''+'', LiteralVal = VNil, Line = 0\<rparr>
        (Literal (VNum 0x3FF0000000000000)) (Literal (VNum 0x4000000000000000))) =
     Inr (VNum 0x4008000000000000) \<and>
   Interpreter_evaluate G_example
     (Binary \<lparr>Type = PLUS, Lexeme = ''+'', LiteralVal = VNil, Line = 0\<rparr>
        (Literal (VStr ''a'')) (Literal (VStr ''b''))) = Inr (VStr ''ab'') \<and>
   Interpreter_evaluate G_example
     (Binary \<lparr>Type = PLUS, Lexeme = ''+'', LiteralVal = VNil, Line = 0\<rparr>
        (Literal (VNum 0x3FF0000000000000)) (Literal (VStr ''b''))) =
     Inl (RuntimeError ''Operands must be two numbers or two strings: PLUS + <nil>'')"
  using plus_numbers_strings_or_error [of "\<lparr>Type = PLUS, Lexeme = ''+'', LiteralVal = VNil, Line = 0\<rparr>"
      G_example "Literal (VNum 0x3FF0000000000000)" "VNum 0x3FF0000000000000"
      "Literal (VNum 0x4000000000000000)" "VNum 0x4000000000000000"]
    plus_numbers_strings_or_error [of "\<lparr>Type = PLUS, Lexeme = ''+'', LiteralVal = VNil, Line = 0\<rparr>"
      G_example "Literal (VStr ''a'')" "VStr ''a''" "Literal (VStr ''b'')" "VStr ''b''"]
    plus_numbers_strings_or_error [of "\<lparr>Type = PLUS, Lexeme = ''+'', LiteralVal = VNil, Line = 0\<rparr>"
      G_example "Literal (VNum 0x3FF0000000000000)" "VNum 0x3FF0000000000000"
      "Literal (VStr ''b'')" "VStr ''b''"]
  by (simp add: G_example_def Token_String_def fmt_v_def)

subsection \<open>The scanner\<close>

lemma ScanTokens_loop_result:
  "current s \<le> length (source s) \<Longrightarrow>
   \<exists>s'. ScanTokens_loop G s = Some s' \<and> source s' = source s \<and>
        current s' = length (source s) \<and> (noEOF (tokens s) \<longrightarrow> noEOF (tokens s'))"
proof (induction G s rule: ScanTokens_loop.induct)
  case (1 G s)
  show ?case
  proof (cases "Scanner_isAtEnd s")
    case True
    with "1.prems" show ?thesis
      by (subst ScanTokens_loop.simps) (simp add: Scanner_isAtEnd_def)
  next
    case False
    let ?t = "s\<lparr>start := current s\<rparr>"
    from False have lt: "current ?t < length (source ?t)" by (simp add: Scanner_isAtEnd_def)
    have "start ?t = current ?t" by simp
    from scanToken_scanned [OF this lt, of G] obtain s1 where
      st: "Scanner_scanToken G ?t = Some s1" and sc: "scanned ?t s1" by blast
    from sc have b: "current s1 \<le> length (source s1)" and src: "source s1 = source s"
      and ne: "noEOF (tokens s) \<longrightarrow> noEOF (tokens s1)"
      by (auto simp: scanned_def)
    from "1.IH" [OF False st b] obtain s' where
      "ScanTokens_loop G s1 = Some s'" "source s' = source s1"
      "current s' = length (source s1)" "noEOF (tokens s1) \<longrightarrow> noEOF (tokens s')"
      by blast
    with False st src ne show ?thesis
      by (subst ScanTokens_loop.simps) simp
  qed
qed

lemma ScanTokens_loop_step:
  assumes "current s < length (source s)"
  shows "\<exists>s'. Scanner_scanToken G (s\<lparr>start := current s\<rparr>) = Some s' \<and>
              current s < current s' \<and> current s' \<le> length (source s) \<and>
              source s' = source s \<and> ScanTokens_loop G s = ScanTokens_loop G s'"
proof -
  let ?t = "s\<lparr>start := current s\<rparr>"
  from assms have lt: "current ?t < length (source ?t)" by simp
  have "start ?t = current ?t" by simp
  from scanToken_scanned [OF this lt, of G] obtain s1 where
    st: "Scanner_scanToken G ?t = Some s1" and sc: "scanned ?t s1"
    and gt: "current ?t < current s1" by blast
  from assms st have "ScanTokens_loop G s = ScanTokens_loop G s1"
    by (subst ScanTokens_loop.simps) (simp add: Scanner_isAtEnd_def)
  with st sc gt show ?thesis by (auto simp: scanned_def)
qed

lemma scanToken_unexpected:
  "current s < length (source s) \<Longrightarrow> unexpected (source s ! current s) \<Longrightarrow>
   Scanner_scanToken G s =
     Some (Scanner_error ''Unexpected character.'' (s\<lparr>current := current s + 1\<rparr>))"
  by (simp add: Scanner_scanToken_def Scanner_advance_def unexpected_def)

lemma string_loop_no_quote:
  "current s \<le> length (source s) \<Longrightarrow> CHR ''\"'' \<notin> set (drop (current s) (source s)) \<Longrightarrow>
   \<exists>s'. string_loop s = Some s' \<and> source s' = source s \<and> start s' = start s \<and>
        current s' = length (source s) \<and> tokens s' = tokens s \<and> errors s' = errors s"
proof (induction s rule: string_loop.induct)
  case (1 s)
  let ?t = "if Scanner_peek s = CHR 0x0A then s\<lparr>line := line s + 1\<rparr> else s"
  show ?case
  proof (cases "current s < length (source s)")
    case False
    with "1.prems" show ?thesis
      by (subst string_loop.simps) (simp add: Scanner_isAtEnd_def)
  next
    case True
    then have "source s ! current s \<in> set (drop (current s) (source s))"
      by (metis Cons_nth_drop_Suc list.set_intros(1))
    with "1.prems"(2) have nq: "source s ! current s \<noteq> CHR ''\"''" by metis
    with True have c: "Scanner_peek s \<noteq> CHR ''\"'' \<and> \<not> Scanner_isAtEnd s"
      by (simp add: Scanner_peek_def Scanner_isAtEnd_def)
    let ?s1 = "?t\<lparr>current := current s + 1\<rparr>"
    from True have a: "Scanner_advance ?t = Some (source s ! current s, ?s1)"
      by (simp add: Scanner_advance_def)
    from True have b: "current ?s1 \<le> length (source ?s1)" by simp
    from "1.prems"(2) have "CHR ''\"'' \<notin> set (drop (current ?s1) (source ?s1))"
      using set_drop_subset_set_drop [of "current s" "current s + 1" "source s"] by auto
    from "1.IH" [OF c a refl b this] obtain s' where
      "string_loop ?s1 = Some s'" "source s' = source ?s1" "start s' = start ?s1"
      "current s' = length (source ?s1)" "tokens s' = tokens ?s1" "errors s' = errors ?s1"
      by blast
    with c a show ?thesis
      by (subst string_loop.simps) (auto split: if_splits)
  qed
qed

lemma scanToken_unterminated:
  assumes "unterminated s"
  shows "\<exists>s'. Scanner_scanToken G s = Some (Scanner_error ''Unterminated string.'' s') \<and>
              current s' = length (source s) \<and> tokens s' = tokens s \<and> errors s' = errors s
              \<and> source s' = source s"
proof -
  let ?s1 = "s\<lparr>current := current s + 1\<rparr>"
  from assms have lt: "current s < length (source s)"
    and q: "source s ! current s = CHR ''\"''"
    and nq: "CHR ''\"'' \<notin> set (drop (current ?s1) (source ?s1))"
    by (simp_all add: unterminated_def)
  from lt have "current ?s1 \<le> length (source ?s1)" by simp
  from string_loop_no_quote [OF this nq] obtain s' where
    l: "string_loop ?s1 = Some s'" and p: "source s' = source s" "start s' = start s"
      "current s' = length (source s)" "tokens s' = tokens s" "errors s' = errors s"
    by auto
  from p have "Scanner_isAtEnd s'" by (simp add: Scanner_isAtEnd_def)
  with l have "Scanner_string ?s1 = Some (Scanner_error ''Unterminated string.'' s')"
    by (simp add: Scanner_string_def)
  with lt q have "Scanner_scanToken G s = Some (Scanner_error ''Unterminated string.'' s')"
    by (simp add: Scanner_scanToken_def Scanner_advance_def)
  with p show ?thesis by blast
qed

text \<open>
  C5. For every source text \<open>ScanTokens\<close> returns, and the token sequence it returns
  ends with an end-of-input token, the only one in it. At a character that starts no
  lexeme \<open>scanToken\<close> appends the error and leaves the cursor one character further,
  and the loop goes on from there; at a string with no closing quote it appends the
  error, adds no token, and the loop ends since the cursor is at the end of the source.
\<close>

theorem ScanTokens_ends_with_one_EOF:
  "(\<exists>toks errs. Scanner_ScanTokens G (NewScanner src) = Some (toks, errs) \<and> toks \<noteq> [] \<and>
       Type (last toks) = EOF \<and> length (filter (\<lambda>t. Type t = EOF) toks) = 1) \<and>
   (current s < length (source s) \<and> unexpected (source s ! current s) \<longrightarrow>
      Scanner_scanToken G (s\<lparr>start := current s\<rparr>) =
        Some (Scanner_error ''Unexpected character.'' (s\<lparr>start := current s, current := current s + 1\<rparr>)) \<and>
      ScanTokens_loop G s =
        ScanTokens_loop G
          (Scanner_error ''Unexpected character.'' (s\<lparr>start := current s, current := current s + 1\<rparr>))) \<and>
   (unterminated s \<longrightarrow>
      (\<exists>s'. Scanner_scanToken G (s\<lparr>start := current s\<rparr>) =
               Some (Scanner_error ''Unterminated string.'' s') \<and>
            tokens s' = tokens s \<and> errors s' = errors s \<and>
            ScanTokens_loop G s = Some (Scanner_error ''Unterminated string.'' s')))"
proof (intro conjI impI)
  have "current (NewScanner src) \<le> length (source (NewScanner src))"
    by (simp add: NewScanner_def)
  from ScanTokens_loop_result [OF this, of G] obtain s' where
    l: "ScanTokens_loop G (NewScanner src) = Some s'" and n: "noEOF (tokens s')"
    by (auto simp: NewScanner_def noEOF_def)
  from n have "filter (\<lambda>t. Type t = EOF) (tokens s') = []"
    by (auto simp: noEOF_def filter_empty_conv)
  with l show "\<exists>toks errs. Scanner_ScanTokens G (NewScanner src) = Some (toks, errs) \<and>
      toks \<noteq> [] \<and> Type (last toks) = EOF \<and> length (filter (\<lambda>t. Type t = EOF) toks) = 1"
    by (simp add: Scanner_ScanTokens_def)
next
  assume a: "current s < length (source s) \<and> unexpected (source s ! current s)"
  let ?t = "s\<lparr>start := current s\<rparr>"
  from a have "current ?t < length (source ?t)" "unexpected (source ?t ! current ?t)" by simp_all
  from scanToken_unexpected [OF this, of G]
  show st: "Scanner_scanToken G ?t =
     Some (Scanner_error ''Unexpected character.'' (s\<lparr>start := current s, current := current s + 1\<rparr>))"
    by simp
  from a show "ScanTokens_loop G s =
     ScanTokens_loop G
       (Scanner_error ''Unexpected character.'' (s\<lparr>start := current s, current := current s + 1\<rparr>))"
    by (subst ScanTokens_loop.simps) (simp add: st Scanner_isAtEnd_def)
next
  assume u: "unterminated s"
  let ?t = "s\<lparr>start := current s\<rparr>"
  from u have "unterminated ?t" by (simp add: unterminated_def)
  from scanToken_unterminated [OF this, of G] obtain s' where
    st: "Scanner_scanToken G ?t = Some (Scanner_error ''Unterminated string.'' s')"
    and p: "current s' = length (source s)" "tokens s' = tokens s" "errors s' = errors s"
      "source s' = source s"
    by auto
  from u have ne: "\<not> Scanner_isAtEnd s" by (simp add: unterminated_def Scanner_isAtEnd_def)
  from p have "Scanner_isAtEnd (Scanner_error ''Unterminated string.'' s')"
    by (simp add: Scanner_isAtEnd_def Scanner_error_def)
  then have "ScanTokens_loop G (Scanner_error ''Unterminated string.'' s') =
      Some (Scanner_error ''Unterminated string.'' s')"
    by (subst ScanTokens_loop.simps) simp
  with ne st have "ScanTokens_loop G s = Some (Scanner_error ''Unterminated string.'' s')"
    by (subst ScanTokens_loop.simps) simp
  with st p show "\<exists>s'. Scanner_scanToken G ?t = Some (Scanner_error ''Unterminated string.'' s') \<and>
      tokens s' = tokens s \<and> errors s' = errors s \<and>
      ScanTokens_loop G s = Some (Scanner_error ''Unterminated string.'' s')"
    by blast
qed

theorem ScanTokens_ends_with_one_EOF_witness:
  "unexpected (CHR ''@'') \<and>
   unterminated ((NewScanner ''1 \"a'')\<lparr>start := 0, current := 2,
     tokens := [\<lparr>Type = NUMBER, Lexeme = ''1'', LiteralVal = VNum 0x3FF0000000000000, Line = 0\<rparr>]\<rparr>) \<and>
   Scanner_ScanTokens G_example (NewScanner ''@1'') =
     Some ([\<lparr>Type = NUMBER, Lexeme = ''1'', LiteralVal = VNum 0x3FF0000000000000, Line = 0\<rparr>,
            \<lparr>Type = EOF, Lexeme = [], LiteralVal = VNil, Line = 0\<rparr>],
           [''Line: 0, Unexpected character.'']) \<and>
   Scanner_ScanTokens G_example (NewScanner ''1 \"a'') =
     Some ([\<lparr>Type = NUMBER, Lexeme = ''1'', LiteralVal = VNum 0x3FF0000000000000, Line = 0\<rparr>,
            \<lparr>Type = EOF, Lexeme = [], LiteralVal = VNil, Line = 0\<rparr>],
           [''Line: 0, Unterminated string.''])"
proof -
  let ?s = "NewScanner ''@1''"
  let ?u = "(NewScanner ''1 \"a'')\<lparr>start := 0, current := 2,
     tokens := [\<lparr>Type = NUMBER, Lexeme = ''1'', LiteralVal = VNum 0x3FF0000000000000, Line = 0\<rparr>]\<rparr>"
  have h1: "current ?s < length (source ?s) \<and> unexpected (source ?s ! current ?s)"
    by (simp add: NewScanner_def unexpected_def isDigit_def isAlpha_def)
  have h2: "unterminated ?u"
    by (simp add: NewScanner_def unterminated_def)
  from ScanTokens_ends_with_one_EOF [of G_example "''@1''" ?s] h1
  have "ScanTokens_loop G_example ?s =
      ScanTokens_loop G_example
        (Scanner_error ''Unexpected character.'' (?s\<lparr>start := current ?s, current := current ?s + 1\<rparr>))"
    by blast
  then have 1: "Scanner_ScanTokens G_example (NewScanner ''@1'') =
     Some ([\<lparr>Type = NUMBER, Lexeme = ''1'', LiteralVal = VNum 0x3FF0000000000000, Line = 0\<rparr>,
            \<lparr>Type = EOF, Lexeme = [], LiteralVal = VNil, Line = 0\<rparr>],
           [''Line: 0, Unexpected character.''])"
    unfolding Scanner_ScanTokens_def
    by (simp add: scan_simps G_example_def fmt_d_def digits10.simps)
  from ScanTokens_ends_with_one_EOF [of G_example "''1 \"a''" ?u] h2
  obtain s' where "ScanTokens_loop G_example ?u = Some (Scanner_error ''Unterminated string.'' s')"
    by blast
  have 2: "Scanner_ScanTokens G_example (NewScanner ''1 \"a'') =
     Some ([\<lparr>Type = NUMBER, Lexeme = ''1'', LiteralVal = VNum 0x3FF0000000000000, Line = 0\<rparr>,
            \<lparr>Type = EOF, Lexeme = [], LiteralVal = VNil, Line = 0\<rparr>],
           [''Line: 0, Unterminated string.''])"
    by (simp add: scan_simps G_example_def fmt_d_def digits10.simps)
  have "unexpected (CHR ''@'')" by (simp add: unexpected_def isDigit_def isAlpha_def)
  with h2 1 2 show ?thesis by simp
qed

text \<open>
  C10. \<open>ScanTokens\<close> returns for every source text (the loop is a total function, and
  it does not panic). In every iteration, which the loop enters with the cursor inside
  the source, \<open>scanToken\<close> leaves the cursor strictly further and within the source;
  once the cursor has reached the length of the source the loop returns.
\<close>

theorem ScanTokens_terminates:
  "(\<exists>toks errs. Scanner_ScanTokens G (NewScanner src) = Some (toks, errs)) \<and>
   (current s < length (source s) \<longrightarrow>
      (\<exists>s'. Scanner_scanToken G (s\<lparr>start := current s\<rparr>) = Some s' \<and>
            current s < current s' \<and> current s' \<le> length (source s) \<and>
            source s' = source s \<and> ScanTokens_loop G s = ScanTokens_loop G s')) \<and>
   (length (source s) \<le> current s \<longrightarrow> ScanTokens_loop G s = Some s)"
proof (intro conjI impI)
  have "current (NewScanner src) \<le> length (source (NewScanner src))"
    by (simp add: NewScanner_def)
  from ScanTokens_loop_result [OF this, of G]
  show "\<exists>toks errs. Scanner_ScanTokens G (NewScanner src) = Some (toks, errs)"
    by (auto simp: Scanner_ScanTokens_def)
next
  assume "current s < length (source s)"
  then show "\<exists>s'. Scanner_scanToken G (s\<lparr>start := current s\<rparr>) = Some s' \<and>
            current s < current s' \<and> current s' \<le> length (source s) \<and>
            source s' = source s \<and> ScanTokens_loop G s = ScanTokens_loop G s'"
    by (rule ScanTokens_loop_step)
next
  assume "length (source s) \<le> current s"
  then show "ScanTokens_loop G s = Some s"
    by (subst ScanTokens_loop.simps) (simp add: Scanner_isAtEnd_def)
qed

theorem ScanTokens_terminates_witness:
  "(\<exists>s'. Scanner_scanToken G_example ((NewScanner ''12 '')\<lparr>start := 0\<rparr>) = Some s' \<and>
         0 < current s' \<and> current s' \<le> 3) \<and>
   ScanTokens_loop G_example ((NewScanner ''12 '')\<lparr>current := 3\<rparr>) =
     Some ((NewScanner ''12 '')\<lparr>current := 3\<rparr>)"
  using ScanTokens_terminates [of G_example "''12 ''" "NewScanner ''12 ''"]
    ScanTokens_terminates [of G_example "''12 ''" "(NewScanner ''12 '')\<lparr>current := 3\<rparr>"]
  by (auto simp: NewScanner_def)

subsection \<open>The parser and the end-of-input token\<close>

lemmas Parser_induct =
  Parser_expression_Parser_equality_equality_loop_Parser_comparison_comparison_loop_Parser_term_term_loop_Parser_factor_factor_loop_Parser_unary_Parser_primary.induct

lemma guardedI:
  assumes "\<And>k. cur \<le> k \<Longrightarrow> k < length ts \<Longrightarrow> Type (ts ! k) = EOF \<Longrightarrow>
             r \<noteq> Inl PanicRuntime \<and> (\<forall>e c. r = Inr (e, c) \<longrightarrow> cur \<le> c \<and> c \<le> k)"
  shows "guarded ts cur r"
  unfolding guarded_def using assms by blast

lemma guardedD:
  assumes "guarded ts cur r" "cur \<le> k" "k < length ts" "Type (ts ! k) = EOF"
  shows "r \<noteq> Inl PanicRuntime" and "r = Inr (e, c) \<Longrightarrow> cur \<le> c \<and> c \<le> k"
  using assms unfolding guarded_def by blast+

lemma Parser_match_guarded:
  assumes "cur \<le> k" "k < length ts" "Type (ts ! k) = EOF"
  shows "Parser_match ts cur tys = Inr (False, cur) \<or>
         Parser_match ts cur tys = Inr (True, cur + 1) \<and> cur + 1 \<le> k \<and>
           Parser_previous ts (cur + 1) = Inr (ts ! cur)"
proof (induction tys)
  case Nil
  show ?case by (simp add: Parser_match.simps)
next
  case (Cons ty tys)
  from assms have lt: "cur < length ts" by simp
  show ?case
  proof (cases "Type (ts ! cur) = EOF")
    case True
    with lt Cons show ?thesis
      by (auto simp: Parser_match.simps Parser_checkTokenType_def Parser_isAtEnd_def)
  next
    case False
    with assms have "cur \<noteq> k" by auto
    with assms have "cur + 1 \<le> k" by simp
    with lt False Cons show ?thesis
      by (auto simp: Parser_match.simps Parser_checkTokenType_def Parser_isAtEnd_def
            Parser_advance_def Parser_previous_def)
  qed
qed

lemma Parser_consume_guarded:
  assumes "cur \<le> k" "k < length ts" "Type (ts ! k) = EOF"
  shows "(\<exists>err. Parser_consume ts cur ty m = Inl (PanicParseError err)) \<or>
         (\<exists>t. Parser_consume ts cur ty m = Inr (t, cur + 1)) \<and> cur + 1 \<le> k"
proof (cases "Type (ts ! cur) = EOF")
  case True
  with assms show ?thesis
    by (auto simp: Parser_consume_def Parser_checkTokenType_def Parser_isAtEnd_def Parser_peek_def)
next
  case False
  with assms have "cur \<noteq> k" by auto
  with assms have "cur + 1 \<le> k" by simp
  with assms False show ?thesis
    by (auto simp: Parser_consume_def Parser_checkTokenType_def Parser_isAtEnd_def Parser_peek_def
          Parser_advance_def Parser_previous_def)
qed

lemma level_guarded:
  assumes r: "r = (case g of Inl p \<Rightarrow> Inl p | Inr (x, y) \<Rightarrow> l x y)"
    and g: "guarded ts cur g"
    and l: "\<And>b x y. g = Inr b \<Longrightarrow> (x, y) = b \<Longrightarrow> guarded ts y (l x y)"
  shows "guarded ts cur r"
proof (rule guardedI)
  fix k assume k: "cur \<le> k" "k < length ts" "Type (ts ! k) = EOF"
  note gd = guardedD [OF g k]
  show "r \<noteq> Inl PanicRuntime \<and> (\<forall>e c. r = Inr (e, c) \<longrightarrow> cur \<le> c \<and> c \<le> k)"
  proof (cases g)
    case (Inl p)
    with gd(1) r show ?thesis by simp
  next
    case (Inr b)
    obtain x y where b: "b = (x, y)" by (cases b)
    with Inr have gx: "g = Inr (x, y)" by simp
    from gd(2) [OF gx] have y: "cur \<le> y" "y \<le> k" by simp_all
    from l [OF gx refl] have "guarded ts y (l x y)" .
    from guardedD [OF this y(2) k(2,3)] y r gx show ?thesis by auto
  qed
qed

lemma loop_guarded:
  assumes r: "r = (case Parser_match ts cur tys of
                  Inl p \<Rightarrow> Inl p
                | Inr (matched, c) \<Rightarrow>
                    if matched then
                      (case Parser_previous ts c of
                         Inl p \<Rightarrow> Inl p
                       | Inr operator \<Rightarrow>
                           (case g c of
                              Inl p \<Rightarrow> Inl p
                            | Inr (right, c') \<Rightarrow> l (Binary operator expr right) c'))
                    else Inr (expr, c))"
    and g: "\<And>b x y ba. Parser_match ts cur tys = Inr b \<Longrightarrow> (x, y) = b \<Longrightarrow> x \<Longrightarrow>
           Parser_previous ts y = Inr ba \<Longrightarrow> guarded ts y (g y)"
    and l: "\<And>b x y ba bb xa ya. Parser_match ts cur tys = Inr b \<Longrightarrow> (x, y) = b \<Longrightarrow> x \<Longrightarrow>
           Parser_previous ts y = Inr ba \<Longrightarrow> g y = Inr bb \<Longrightarrow> (xa, ya) = bb \<Longrightarrow>
           guarded ts ya (l (Binary ba expr xa) ya)"
  shows "guarded ts cur r"
proof (rule guardedI)
  fix k assume k: "cur \<le> k" "k < length ts" "Type (ts ! k) = EOF"
  from Parser_match_guarded [OF k, of tys]
  show "r \<noteq> Inl PanicRuntime \<and> (\<forall>e c. r = Inr (e, c) \<longrightarrow> cur \<le> c \<and> c \<le> k)"
  proof
    assume "Parser_match ts cur tys = Inr (False, cur)"
    with r k show ?thesis by simp
  next
    assume a: "Parser_match ts cur tys = Inr (True, cur + 1) \<and> cur + 1 \<le> k \<and>
           Parser_previous ts (cur + 1) = Inr (ts ! cur)"
    then have m: "Parser_match ts cur tys = Inr (True, cur + 1)" and c1: "cur + 1 \<le> k"
      and p: "Parser_previous ts (cur + 1) = Inr (ts ! cur)" by simp_all
    from g [OF m refl TrueI p] have gg: "guarded ts (cur + 1) (g (cur + 1))" .
    note gd = guardedD [OF gg c1 k(2,3)]
    show ?thesis
    proof (cases "g (cur + 1)")
      case (Inl q)
      with gd(1) r m p show ?thesis by simp
    next
      case (Inr bb)
      obtain xa ya where bb: "bb = (xa, ya)" by (cases bb)
      with Inr have gx: "g (cur + 1) = Inr (xa, ya)" by simp
      from gd(2) [OF gx] have y: "cur + 1 \<le> ya" "ya \<le> k" by simp_all
      from l [OF m refl TrueI p gx refl]
      have "guarded ts ya (l (Binary (ts ! cur) expr xa) ya)" .
      from guardedD [OF this y(2) k(2,3)] y r m p gx show ?thesis by auto
    qed
  qed
qed

lemma unary_guarded:
  assumes r: "r = (case Parser_match ts cur tys of
                  Inl p \<Rightarrow> Inl p
                | Inr (matched, c) \<Rightarrow>
                    if \<not> matched then prim c
                    else (case Parser_previous ts c of
                            Inl p \<Rightarrow> Inl p
                          | Inr operator \<Rightarrow>
                              (case un c of
                                 Inl p \<Rightarrow> Inl p
                               | Inr (right, c') \<Rightarrow> Inr (Unary operator right, c'))))"
    and pr: "\<And>b x y. Parser_match ts cur tys = Inr b \<Longrightarrow> (x, y) = b \<Longrightarrow> \<not> x \<Longrightarrow>
           guarded ts y (prim y)"
    and un: "\<And>b x y ba. Parser_match ts cur tys = Inr b \<Longrightarrow> (x, y) = b \<Longrightarrow> \<not> \<not> x \<Longrightarrow>
           Parser_previous ts y = Inr ba \<Longrightarrow> guarded ts y (un y)"
  shows "guarded ts cur r"
proof (rule guardedI)
  fix k assume k: "cur \<le> k" "k < length ts" "Type (ts ! k) = EOF"
  from Parser_match_guarded [OF k, of tys]
  show "r \<noteq> Inl PanicRuntime \<and> (\<forall>e c. r = Inr (e, c) \<longrightarrow> cur \<le> c \<and> c \<le> k)"
  proof
    assume m: "Parser_match ts cur tys = Inr (False, cur)"
    have "\<not> False" by simp
    from pr [OF m refl this] have "guarded ts cur (prim cur)" .
    from guardedD [OF this k] r m show ?thesis by auto
  next
    assume a: "Parser_match ts cur tys = Inr (True, cur + 1) \<and> cur + 1 \<le> k \<and>
           Parser_previous ts (cur + 1) = Inr (ts ! cur)"
    then have m: "Parser_match ts cur tys = Inr (True, cur + 1)" and c1: "cur + 1 \<le> k"
      and p: "Parser_previous ts (cur + 1) = Inr (ts ! cur)" by simp_all
    have "\<not> \<not> True" by simp
    from un [OF m refl this p] have gg: "guarded ts (cur + 1) (un (cur + 1))" .
    note gd = guardedD [OF gg c1 k(2,3)]
    show ?thesis
    proof (cases "un (cur + 1)")
      case (Inl q)
      with gd(1) r m p show ?thesis by simp
    next
      case (Inr bb)
      obtain xa ya where bb: "bb = (xa, ya)" by (cases bb)
      with Inr have gx: "un (cur + 1) = Inr (xa, ya)" by simp
      from gd(2) [OF gx] have y: "cur + 1 \<le> ya" "ya \<le> k" by simp_all
      with r m p gx show ?thesis by auto
    qed
  qed
qed

lemma primary_guarded:
  assumes ex: "\<And>b x y ba xa ya bb xb yb bc xc yc bd xd yd.
          Parser_match ts cur [NUMBER, STRING] = Inr b \<Longrightarrow> (x, y) = b \<Longrightarrow> \<not> x \<Longrightarrow>
          Parser_match ts y [TRUE] = Inr ba \<Longrightarrow> (xa, ya) = ba \<Longrightarrow> \<not> xa \<Longrightarrow>
          Parser_match ts ya [FALSE] = Inr bb \<Longrightarrow> (xb, yb) = bb \<Longrightarrow> \<not> xb \<Longrightarrow>
          Parser_match ts yb [NIL] = Inr bc \<Longrightarrow> (xc, yc) = bc \<Longrightarrow> \<not> xc \<Longrightarrow>
          Parser_match ts yc [LEFT_PAREN] = Inr bd \<Longrightarrow> (xd, yd) = bd \<Longrightarrow> xd \<Longrightarrow>
          guarded ts yd (Parser_expression ts yd)"
  shows "guarded ts cur (Parser_primary ts cur)"
proof (rule guardedI)
  fix k assume k: "cur \<le> k" "k < length ts" "Type (ts ! k) = EOF"
  have hit: "\<And>tys. Parser_match ts cur tys \<noteq> Inr (False, cur) \<Longrightarrow>
      Parser_match ts cur tys = Inr (True, cur + 1) \<and> cur + 1 \<le> k \<and>
      Parser_previous ts (cur + 1) = Inr (ts ! cur)"
    using Parser_match_guarded [OF k] by blast
  have hit1: "\<And>tys. Parser_match ts cur tys \<noteq> Inr (False, cur) \<Longrightarrow> cur + 1 \<le> k"
    using hit by blast
  from k have pk: "Parser_peek ts cur = Inr (ts ! cur)" by (simp add: Parser_peek_def)
  let ?r = "Parser_primary ts cur"
  have "\<exists>e c. ?r = Inr (e, c) \<and> cur \<le> c \<and> c \<le> k \<or> (\<exists>err. ?r = Inl (PanicParseError err))"
  proof (cases "Parser_match ts cur [NUMBER, STRING] = Inr (False, cur)")
    case False
    from hit [OF this] have "?r = Inr (Literal (LiteralVal (ts ! cur)), cur + 1)"
      by (subst Parser_primary.simps) simp
    with hit1 [OF False] show ?thesis by simp
  next
    case m1: True
    show ?thesis
    proof (cases "Parser_match ts cur [TRUE] = Inr (False, cur)")
      case False
      from hit [OF this] m1 have "?r = Inr (Literal (VBool True), cur + 1)"
      by (subst Parser_primary.simps) simp
    with hit1 [OF False] show ?thesis by simp
    next
      case m2: True
      show ?thesis
      proof (cases "Parser_match ts cur [FALSE] = Inr (False, cur)")
        case False
        from hit [OF this] m1 m2 have "?r = Inr (Literal (VBool False), cur + 1)"
      by (subst Parser_primary.simps) simp
    with hit1 [OF False] show ?thesis by simp
      next
        case m3: True
        show ?thesis
        proof (cases "Parser_match ts cur [NIL] = Inr (False, cur)")
          case False
          from hit [OF this] m1 m2 m3 have "?r = Inr (Literal (VStr ''null''), cur + 1)"
      by (subst Parser_primary.simps) simp
    with hit1 [OF False] show ?thesis by simp
        next
          case m4: True
          show ?thesis
          proof (cases "Parser_match ts cur [LEFT_PAREN] = Inr (False, cur)")
            case True
            with m1 m2 m3 m4 pk
            have "?r = Inl (PanicParseError (Parser_error (ts ! cur) ''Expect expression''))"
              by (subst Parser_primary.simps) simp
            then show ?thesis by simp
          next
            case False
            from hit [OF this] have m5: "Parser_match ts cur [LEFT_PAREN] = Inr (True, cur + 1)"
              and c1: "cur + 1 \<le> k" by simp_all
            have nf: "\<not> False" by simp
            from ex [OF m1 refl nf m2 refl nf m3 refl nf m4 refl nf m5 refl TrueI]
            have ge: "guarded ts (cur + 1) (Parser_expression ts (cur + 1))" .
            note gd = guardedD [OF ge c1 k(2,3)]
            have eq: "?r = (case Parser_expression ts (cur + 1) of
               Inl p \<Rightarrow> Inl p
             | Inr (expr, c6) \<Rightarrow>
                 (case Parser_consume ts c6 RIGHT_PAREN
                         (''Expect '' @ [CHR 0x27] @ '')'' @ [CHR 0x27] @ '' after expression.'') of
                    Inl p \<Rightarrow> Inl p
                  | Inr (t, c7) \<Rightarrow> Inr (Grouping expr, c7)))"
              using m1 m2 m3 m4 m5 by (subst Parser_primary.simps) simp
            show ?thesis
            proof (cases "Parser_expression ts (cur + 1)")
              case (Inl q)
              with gd(1) obtain err where "q = PanicParseError err" by (cases q) auto
              with Inl eq show ?thesis by simp
            next
              case (Inr bb)
              obtain x c6 where "bb = (x, c6)" by (cases bb)
              with Inr have gx: "Parser_expression ts (cur + 1) = Inr (x, c6)" by simp
              from gd(2) [OF gx] have y: "cur + 1 \<le> c6" "c6 \<le> k" by simp_all
              from Parser_consume_guarded [OF y(2) k(2,3), of RIGHT_PAREN
                  "''Expect '' @ [CHR 0x27] @ '')'' @ [CHR 0x27] @ '' after expression.''"]
              show ?thesis
              proof
                assume "\<exists>err. Parser_consume ts c6 RIGHT_PAREN
                   (''Expect '' @ [CHR 0x27] @ '')'' @ [CHR 0x27] @ '' after expression.'') =
                   Inl (PanicParseError err)"
                then obtain err where "Parser_consume ts c6 RIGHT_PAREN
                   (''Expect '' @ [CHR 0x27] @ '')'' @ [CHR 0x27] @ '' after expression.'') =
                   Inl (PanicParseError err)" ..
                with eq gx have "?r = Inl (PanicParseError err)" by simp
                then show ?thesis by simp
              next
                assume "(\<exists>t. Parser_consume ts c6 RIGHT_PAREN
                   (''Expect '' @ [CHR 0x27] @ '')'' @ [CHR 0x27] @ '' after expression.'') =
                   Inr (t, c6 + 1)) \<and> c6 + 1 \<le> k"
                then obtain t where "Parser_consume ts c6 RIGHT_PAREN
                   (''Expect '' @ [CHR 0x27] @ '')'' @ [CHR 0x27] @ '' after expression.'') =
                   Inr (t, c6 + 1)" and "c6 + 1 \<le> k" by blast
                with eq gx y have "?r = Inr (Grouping x, c6 + 1)" "cur \<le> c6 + 1" "c6 + 1 \<le> k"
                  by simp_all
                then show ?thesis by simp
              qed
            qed
          qed
        qed
      qed
    qed
  qed
  then show "?r \<noteq> Inl PanicRuntime \<and> (\<forall>e c. ?r = Inr (e, c) \<longrightarrow> cur \<le> c \<and> c \<le> k)"
    by auto
qed

lemma Parser_guarded:
  "guarded ts cur (Parser_expression ts cur)"
  "guarded ts cur (Parser_equality ts cur)"
  "guarded ts cur (equality_loop ts expr cur)"
  "guarded ts cur (Parser_comparison ts cur)"
  "guarded ts cur (comparison_loop ts expr cur)"
  "guarded ts cur (Parser_term ts cur)"
  "guarded ts cur (term_loop ts expr cur)"
  "guarded ts cur (Parser_factor ts cur)"
  "guarded ts cur (factor_loop ts expr cur)"
  "guarded ts cur (Parser_unary ts cur)"
  "guarded ts cur (Parser_primary ts cur)"
proof (induct ts cur and ts cur and ts expr cur and ts cur and ts expr cur and ts cur
         and ts expr cur and ts cur and ts expr cur and ts cur and ts cur
       rule: Parser_induct)
  case (1 ts cur)
  then show ?case by (simp add: Parser_expression.simps)
next
  case (2 ts cur)
  show ?case by (rule level_guarded [OF Parser_equality.simps "2"])
next
  case (3 ts expr cur)
  show ?case by (rule loop_guarded [OF equality_loop.simps "3"])
next
  case (4 ts cur)
  show ?case by (rule level_guarded [OF Parser_comparison.simps "4"])
next
  case (5 ts expr cur)
  show ?case by (rule loop_guarded [OF comparison_loop.simps "5"])
next
  case (6 ts cur)
  show ?case by (rule level_guarded [OF Parser_term.simps "6"])
next
  case (7 ts expr cur)
  show ?case by (rule loop_guarded [OF term_loop.simps "7"])
next
  case (8 ts cur)
  show ?case by (rule level_guarded [OF Parser_factor.simps "8"])
next
  case (9 ts expr cur)
  show ?case by (rule loop_guarded [OF factor_loop.simps "9"])
next
  case (10 ts cur)
  show ?case by (rule unary_guarded [OF Parser_unary.simps "10"])
next
  case (11 ts cur)
  show ?case by (rule primary_guarded [OF "11"])
qed

lemma scanToken_whitespace:
  assumes "current s < length (source s)" "whitespace (source s ! current s)"
  shows "\<exists>l. Scanner_scanToken G s = Some (s\<lparr>current := current s + 1, line := l\<rparr>)"
proof -
  from assms(2) consider "source s ! current s = CHR 0x0A"
    | "source s ! current s = CHR '' '' \<or> source s ! current s = CHR 0x09 \<or>
       source s ! current s = CHR 0x0D"
    by (auto simp: whitespace_def)
  then show ?thesis
  proof cases
    case 1
    with assms(1) have "Scanner_scanToken G s = Some (s\<lparr>current := current s + 1, line := line s + 1\<rparr>)"
      by (simp add: Scanner_scanToken_def Scanner_advance_def)
    then show ?thesis by blast
  next
    case 2
    with assms(1) have "Scanner_scanToken G s = Some (s\<lparr>current := current s + 1\<rparr>)"
      by (auto simp: Scanner_scanToken_def Scanner_advance_def)
    then have "Scanner_scanToken G s = Some (s\<lparr>current := current s + 1, line := line s\<rparr>)"
      by simp
    then show ?thesis by blast
  qed
qed

lemma ScanTokens_loop_whitespace:
  "\<forall>i. current s \<le> i \<and> i < length (source s) \<longrightarrow> whitespace (source s ! i) \<Longrightarrow>
   \<exists>s'. ScanTokens_loop G s = Some s' \<and> tokens s' = tokens s \<and> errors s' = errors s"
proof (induction G s rule: ScanTokens_loop.induct)
  case (1 G s)
  show ?case
  proof (cases "Scanner_isAtEnd s")
    case True
    then show ?thesis by (subst ScanTokens_loop.simps) simp
  next
    case False
    let ?t = "s\<lparr>start := current s\<rparr>"
    from False have lt: "current ?t < length (source ?t)" by (simp add: Scanner_isAtEnd_def)
    with "1.prems" have "whitespace (source ?t ! current ?t)" by simp
    from scanToken_whitespace [OF lt this, of G] obtain l where
      st: "Scanner_scanToken G ?t = Some (?t\<lparr>current := current ?t + 1, line := l\<rparr>)" by blast
    let ?s1 = "?t\<lparr>current := current ?t + 1, line := l\<rparr>"
    from "1.prems" have "\<forall>i. current ?s1 \<le> i \<and> i < length (source ?s1) \<longrightarrow>
        whitespace (source ?s1 ! i)" by simp
    from "1.IH" [OF False st this] obtain s' where
      "ScanTokens_loop G ?s1 = Some s'" "tokens s' = tokens ?s1" "errors s' = errors ?s1"
      by blast
    with False st show ?thesis by (subst ScanTokens_loop.simps) simp
  qed
qed

lemma ScanTokens_whitespace:
  assumes "\<forall>c \<in> set src. whitespace c"
  shows "\<exists>l. Scanner_ScanTokens G (NewScanner src) = Some ([EOF_token l], [])"
proof -
  from assms have "\<forall>i. current (NewScanner src) \<le> i \<and> i < length (source (NewScanner src)) \<longrightarrow>
      whitespace (source (NewScanner src) ! i)"
    by (simp add: NewScanner_def)
  from ScanTokens_loop_whitespace [OF this, of G] obtain s' where
    "ScanTokens_loop G (NewScanner src) = Some s'" "tokens s' = []" "errors s' = []"
    by (auto simp: NewScanner_def)
  then show ?thesis by (auto simp: Scanner_ScanTokens_def EOF_token_def)
qed

lemma Parser_match_at_EOF:
  "Type t = EOF \<Longrightarrow> Parser_match (t # rest) 0 tys = Inr (False, 0)"
  by (induction tys)
     (simp_all add: Parser_match.simps Parser_checkTokenType_def Parser_isAtEnd_def)

lemma Parser_expression_at_EOF:
  assumes "Type t = EOF"
  shows "Parser_expression (t # rest) 0 =
           Inl (PanicParseError (Parser_error t ''Expect expression''))"
proof -
  note m = Parser_match_at_EOF [OF assms]
  have "Parser_primary (t # rest) 0 = Inl (PanicParseError (Parser_error t ''Expect expression''))"
    by (subst Parser_primary.simps) (simp add: m Parser_peek_def)
  then have "Parser_unary (t # rest) 0 = Inl (PanicParseError (Parser_error t ''Expect expression''))"
    by (subst Parser_unary.simps) (simp add: m)
  then have "Parser_factor (t # rest) 0 = Inl (PanicParseError (Parser_error t ''Expect expression''))"
    by (subst Parser_factor.simps) simp
  then have "Parser_term (t # rest) 0 = Inl (PanicParseError (Parser_error t ''Expect expression''))"
    by (subst Parser_term.simps) simp
  then have "Parser_comparison (t # rest) 0 = Inl (PanicParseError (Parser_error t ''Expect expression''))"
    by (subst Parser_comparison.simps) simp
  then have "Parser_equality (t # rest) 0 = Inl (PanicParseError (Parser_error t ''Expect expression''))"
    by (subst Parser_equality.simps) simp
  then show ?thesis by (subst Parser_expression.simps)
qed

text \<open>
  C9. On a token sequence whose first token is the end-of-input token \<open>Parse\<close>
  returns no tree and the syntax error of \<open>primary\<close>, whose message contains
  "Expect expression"; the tokens after it, if any, do not matter, and with none there
  is no read out of range. The scan of a source of white space only is such a sequence:
  the end-of-input token alone.
\<close>

theorem Parse_only_EOF_is_syntax_error:
  "(Type t = EOF \<longrightarrow>
      Parser_Parse (t # rest) = Some (None, Some (Parser_error t ''Expect expression'')) \<and>
      Parser_Parse [t] = Some (None, Some (Parser_error t ''Expect expression'')) \<and>
      (\<exists>pre post. Parser_error t ''Expect expression'' =
                     ParseError (pre @ ''Expect expression'' @ post))) \<and>
   ((\<forall>c \<in> set src. whitespace c) \<longrightarrow>
      (\<exists>l. Scanner_ScanTokens G (NewScanner src) = Some ([EOF_token l], []) \<and>
           Parser_Parse [EOF_token l] =
             Some (None, Some (Parser_error (EOF_token l) ''Expect expression''))))"
proof (intro conjI impI)
  assume t: "Type t = EOF"
  from Parser_expression_at_EOF [OF t]
  show "Parser_Parse (t # rest) = Some (None, Some (Parser_error t ''Expect expression''))"
    by (simp add: Parser_Parse_def)
  from Parser_expression_at_EOF [OF t]
  show "Parser_Parse [t] = Some (None, Some (Parser_error t ''Expect expression''))"
    by (simp add: Parser_Parse_def)
  have "Parser_error t ''Expect expression'' =
      ParseError ((Lexeme t @ '' '' @ TokenType_String (Type t) @ '' '' @ fmt_d (Line t) @ '' at '' @
                   [CHR 0x27]) @ ''Expect expression'' @ [CHR 0x27])"
    by (simp add: Parser_error_def)
  then show "\<exists>pre post. Parser_error t ''Expect expression'' =
                     ParseError (pre @ ''Expect expression'' @ post)"
    by blast
next
  assume "\<forall>c \<in> set src. whitespace c"
  from ScanTokens_whitespace [OF this, of G] obtain l where
    "Scanner_ScanTokens G (NewScanner src) = Some ([EOF_token l], [])" by blast
  moreover have "Type (EOF_token l) = EOF" by (simp add: EOF_token_def)
  from Parser_expression_at_EOF [OF this]
  have "Parser_Parse [EOF_token l] =
          Some (None, Some (Parser_error (EOF_token l) ''Expect expression''))"
    by (simp add: Parser_Parse_def)
  ultimately show "\<exists>l. Scanner_ScanTokens G (NewScanner src) = Some ([EOF_token l], []) \<and>
           Parser_Parse [EOF_token l] =
             Some (None, Some (Parser_error (EOF_token l) ''Expect expression''))"
    by blast
qed

theorem Parse_only_EOF_is_syntax_error_witness:
  "Scanner_ScanTokens G_example (NewScanner [CHR '' '', CHR 0x0A]) = Some ([EOF_token 1], []) \<and>
   Parser_Parse [EOF_token 1] = Some (None, Some (ParseError ('' EOF 1 at '' @ [CHR 0x27] @ ''Expect expression'' @ [CHR 0x27])))"
proof -
  have 1: "Type (EOF_token 1) = EOF" by (simp add: EOF_token_def)
  have 2: "\<forall>c \<in> set [CHR '' '', CHR 0x0A]. whitespace c" by (simp add: whitespace_def)
  from Parse_only_EOF_is_syntax_error [of "EOF_token 1" "[]" "[CHR '' '', CHR 0x0A]" G_example] 1 2
  have "Parser_Parse [EOF_token 1] = Some (None, Some (Parser_error (EOF_token 1) ''Expect expression''))"
    and "\<exists>l. Scanner_ScanTokens G_example (NewScanner [CHR '' '', CHR 0x0A]) = Some ([EOF_token l], [])"
    by blast+
  moreover have "Scanner_ScanTokens G_example (NewScanner [CHR '' '', CHR 0x0A]) =
      Some ([EOF_token 1], [])"
    by (simp add: scan_simps EOF_token_def)
  ultimately show ?thesis
    by (simp add: Parser_error_def EOF_token_def fmt_d_def digits10.simps)
qed

subsection \<open>Associativity\<close>

lemma Parser_match_hit:
  "cur < length ts \<Longrightarrow> Type (ts ! cur) \<in> set tys \<Longrightarrow> EOF \<notin> set tys \<Longrightarrow>
   Parser_match ts cur tys = Inr (True, cur + 1)"
  by (induction tys)
     (auto simp: Parser_match.simps Parser_checkTokenType_def Parser_isAtEnd_def
        Parser_advance_def Parser_previous_def)

lemma Parser_match_miss:
  "cur < length ts \<Longrightarrow> Type (ts ! cur) \<notin> set tys \<Longrightarrow>
   Parser_match ts cur tys = Inr (False, cur)"
  by (induction tys)
     (auto simp: Parser_match.simps Parser_checkTokenType_def Parser_isAtEnd_def)

lemma loop_chain:
  assumes eq: "\<And>expr cur. lp expr cur =
       (case Parser_match ts cur tys of
          Inl p \<Rightarrow> Inl p
        | Inr (matched, c) \<Rightarrow>
            if matched then
              (case Parser_previous ts c of
                 Inl p \<Rightarrow> Inl p
               | Inr operator \<Rightarrow>
                   (case g c of
                      Inl p \<Rightarrow> Inl p
                    | Inr (right, c') \<Rightarrow> lp (Binary operator expr right) c'))
            else Inr (expr, c))"
    and ne: "EOF \<notin> set tys"
    and j: "j < length ts" "Type (ts ! j) \<in> set tys"
    and b: "g (j + 1) = Inr (b, k)"
    and k: "k < length ts" "Type (ts ! k) \<in> set tys"
    and c: "g (k + 1) = Inr (c, l)"
    and l: "l < length ts" "Type (ts ! l) \<notin> set tys"
  shows "lp a j = Inr (Binary (ts ! k) (Binary (ts ! j) a b) c, l)"
proof -
  have step: "\<And>e i r i'. i < length ts \<Longrightarrow> Type (ts ! i) \<in> set tys \<Longrightarrow> g (i + 1) = Inr (r, i') \<Longrightarrow>
      lp e i = lp (Binary (ts ! i) e r) i'"
  proof -
    fix e i r i' assume i: "i < length ts" "Type (ts ! i) \<in> set tys" and r: "g (i + 1) = Inr (r, i')"
    from Parser_match_hit [OF i ne] have m: "Parser_match ts i tys = Inr (True, Suc i)" by simp
    from i have p: "Parser_previous ts (Suc i) = Inr (ts ! i)" by (simp add: Parser_previous_def)
    from r have r': "g (Suc i) = Inr (r, i')" by simp
    show "lp e i = lp (Binary (ts ! i) e r) i'"
      by (subst eq) (simp add: m p r')
  qed
  have stop: "\<And>e. lp e l = Inr (e, l)"
    by (subst eq) (simp add: Parser_match_miss [OF l])
  from step [OF j b] step [OF k c] stop show ?thesis by simp
qed

lemma level_operators_no_EOF: "EOF \<notin> set (level_operators lv)"
  by (cases lv) simp_all

lemma level_parser_chain:
  assumes a: "level_operand lv ts i = Inr (a, j)"
    and j: "j < length ts" "Type (ts ! j) \<in> set (level_operators lv)"
    and b: "level_operand lv ts (j + 1) = Inr (b, k)"
    and k: "k < length ts" "Type (ts ! k) \<in> set (level_operators lv)"
    and c: "level_operand lv ts (k + 1) = Inr (c, l)"
    and l: "l < length ts" "Type (ts ! l) \<notin> set (level_operators lv)"
  shows "level_parser lv ts i = Inr (Binary (ts ! k) (Binary (ts ! j) a b) c, l)"
proof (cases lv)
  case EqualityLevel
  from loop_chain [where lp = "equality_loop ts" and ts = ts and tys = "[EQUAL_EQUAL, BANG_EQUAL]" and g = "Parser_comparison ts",
      OF equality_loop.simps _ j(1) _ _ k(1) _ _ l(1)] j(2) b k(2) c l(2) EqualityLevel
  have "equality_loop ts a j = Inr (Binary (ts ! k) (Binary (ts ! j) a b) c, l)" by simp
  with a EqualityLevel show ?thesis by (simp add: Parser_equality.simps)
next
  case ComparisonLevel
  from loop_chain [where lp = "comparison_loop ts" and ts = ts and tys = "[GREATER, GREATER_EQUAL, LESS, LESS_EQUAL]" and g = "Parser_term ts",
      OF comparison_loop.simps _ j(1) _ _ k(1) _ _ l(1)]
    j(2) b k(2) c l(2) ComparisonLevel
  have "comparison_loop ts a j = Inr (Binary (ts ! k) (Binary (ts ! j) a b) c, l)" by simp
  with a ComparisonLevel show ?thesis by (simp add: Parser_comparison.simps)
next
  case TermLevel
  from loop_chain [where lp = "term_loop ts" and ts = ts and tys = "[PLUS, MINUS, OR]" and g = "Parser_factor ts",
      OF term_loop.simps _ j(1) _ _ k(1) _ _ l(1)] j(2) b k(2) c l(2) TermLevel
  have "term_loop ts a j = Inr (Binary (ts ! k) (Binary (ts ! j) a b) c, l)" by simp
  with a TermLevel show ?thesis by (simp add: Parser_term.simps)
next
  case FactorLevel
  from loop_chain [where lp = "factor_loop ts" and ts = ts and tys = "[STAR, SLASH, AND]" and g = "Parser_unary ts",
      OF factor_loop.simps _ j(1) _ _ k(1) _ _ l(1)] j(2) b k(2) c l(2) FactorLevel
  have "factor_loop ts a j = Inr (Binary (ts ! k) (Binary (ts ! j) a b) c, l)" by simp
  with a FactorLevel show ?thesis by (simp add: Parser_factor.simps)
qed

lemma scan_1_plus_2_plus_3:
  "Scanner_ScanTokens G (NewScanner ''1 + 2 + 3'') =
     Some ([\<lparr>Type = NUMBER, Lexeme = ''1'', LiteralVal = VNum (ParseFloat G ''1''), Line = 0\<rparr>,
            \<lparr>Type = PLUS, Lexeme = ''+'', LiteralVal = VNil, Line = 0\<rparr>,
            \<lparr>Type = NUMBER, Lexeme = ''2'', LiteralVal = VNum (ParseFloat G ''2''), Line = 0\<rparr>,
            \<lparr>Type = PLUS, Lexeme = ''+'', LiteralVal = VNil, Line = 0\<rparr>,
            \<lparr>Type = NUMBER, Lexeme = ''3'', LiteralVal = VNum (ParseFloat G ''3''), Line = 0\<rparr>,
            \<lparr>Type = EOF, Lexeme = [], LiteralVal = VNil, Line = 0\<rparr>], [])"
  by (simp add: scan_simps)

lemma parse_1_plus_2_plus_3:
  "Parser_Parse
     [\<lparr>Type = NUMBER, Lexeme = ''1'', LiteralVal = VNum x, Line = 0\<rparr>,
      \<lparr>Type = PLUS, Lexeme = ''+'', LiteralVal = VNil, Line = 0\<rparr>,
      \<lparr>Type = NUMBER, Lexeme = ''2'', LiteralVal = VNum y, Line = 0\<rparr>,
      \<lparr>Type = PLUS, Lexeme = ''+'', LiteralVal = VNil, Line = 0\<rparr>,
      \<lparr>Type = NUMBER, Lexeme = ''3'', LiteralVal = VNum z, Line = 0\<rparr>,
      \<lparr>Type = EOF, Lexeme = [], LiteralVal = VNil, Line = 0\<rparr>] =
   Some (Some (Binary \<lparr>Type = PLUS, Lexeme = ''+'', LiteralVal = VNil, Line = 0\<rparr>
                 (Binary \<lparr>Type = PLUS, Lexeme = ''+'', LiteralVal = VNil, Line = 0\<rparr>
                    (Literal (VNum x)) (Literal (VNum y)))
                 (Literal (VNum z))), None)"
  by (simp add: parse_simps)

lemma print_1_plus_2_plus_3:
  "print_source G ''1 + 2 + 3'' =
     Some (''(+ (+ '' @ FormatFloat G (ParseFloat G ''1'') @ '' '' @
           FormatFloat G (ParseFloat G ''2'') @ '') '' @ FormatFloat G (ParseFloat G ''3'') @ '')'')"
  by (simp add: print_source_def scan_1_plus_2_plus_3 parse_1_plus_2_plus_3
        AstPrinter_parenthesize_def fmt_v_def)

text \<open>
  C6. At each of the four binary levels: when the operand function parses \<open>a\<close>, an
  operator of the level follows, the operand function parses \<open>b\<close>, another operator of
  the level follows, the operand function parses \<open>c\<close>, and the next token is not an
  operator of the level, the level's function returns
  \<open>Binary op2 (Binary op1 a b) c\<close>. And the tree parsed from \<open>1 + 2 + 3\<close> is
  rendered as \<open>(+ (+ 1 2) 3)\<close>, given that Go renders the numbers read from \<open>1\<close>,
  \<open>2\<close> and \<open>3\<close> as \<open>1\<close>, \<open>2\<close> and \<open>3\<close>.
\<close>

theorem binary_levels_left_associative:
  assumes "level_operand lv ts i = Inr (a, j)"
    and "j < length ts" and "Type (ts ! j) \<in> set (level_operators lv)"
    and "level_operand lv ts (j + 1) = Inr (b, k)"
    and "k < length ts" and "Type (ts ! k) \<in> set (level_operators lv)"
    and "level_operand lv ts (k + 1) = Inr (c, l)"
    and "l < length ts" and "Type (ts ! l) \<notin> set (level_operators lv)"
  shows "level_parser lv ts i = Inr (Binary (ts ! k) (Binary (ts ! j) a b) c, l) \<and>
         (FormatFloat G (ParseFloat G ''1'') = ''1'' \<and>
          FormatFloat G (ParseFloat G ''2'') = ''2'' \<and>
          FormatFloat G (ParseFloat G ''3'') = ''3'' \<longrightarrow>
            print_source G ''1 + 2 + 3'' = Some ''(+ (+ 1 2) 3)'')"
  using level_parser_chain [OF assms] by (simp add: print_1_plus_2_plus_3)

theorem binary_levels_left_associative_witness:
  "level_parser TermLevel
     [\<lparr>Type = NUMBER, Lexeme = ''1'', LiteralVal = VNum 0x3FF0000000000000, Line = 0\<rparr>,
      \<lparr>Type = PLUS, Lexeme = ''+'', LiteralVal = VNil, Line = 0\<rparr>,
      \<lparr>Type = NUMBER, Lexeme = ''2'', LiteralVal = VNum 0x4000000000000000, Line = 0\<rparr>,
      \<lparr>Type = MINUS, Lexeme = ''-'', LiteralVal = VNil, Line = 0\<rparr>,
      \<lparr>Type = NUMBER, Lexeme = ''3'', LiteralVal = VNum 0x4008000000000000, Line = 0\<rparr>,
      \<lparr>Type = EOF, Lexeme = [], LiteralVal = VNil, Line = 0\<rparr>] 0 =
   Inr (Binary \<lparr>Type = MINUS, Lexeme = ''-'', LiteralVal = VNil, Line = 0\<rparr>
          (Binary \<lparr>Type = PLUS, Lexeme = ''+'', LiteralVal = VNil, Line = 0\<rparr>
             (Literal (VNum 0x3FF0000000000000)) (Literal (VNum 0x4000000000000000)))
          (Literal (VNum 0x4008000000000000)), 5) \<and>
   print_source G_example ''1 + 2 + 3'' = Some ''(+ (+ 1 2) 3)''"
  using binary_levels_left_associative [of TermLevel
     "[\<lparr>Type = NUMBER, Lexeme = ''1'', LiteralVal = VNum 0x3FF0000000000000, Line = 0\<rparr>,
      \<lparr>Type = PLUS, Lexeme = ''+'', LiteralVal = VNil, Line = 0\<rparr>,
      \<lparr>Type = NUMBER, Lexeme = ''2'', LiteralVal = VNum 0x4000000000000000, Line = 0\<rparr>,
      \<lparr>Type = MINUS, Lexeme = ''-'', LiteralVal = VNil, Line = 0\<rparr>,
      \<lparr>Type = NUMBER, Lexeme = ''3'', LiteralVal = VNum 0x4008000000000000, Line = 0\<rparr>,
      \<lparr>Type = EOF, Lexeme = [], LiteralVal = VNil, Line = 0\<rparr>]"
     0 "Literal (VNum 0x3FF0000000000000)" 1 "Literal (VNum 0x4000000000000000)" 3
     "Literal (VNum 0x4008000000000000)" 5 G_example]
  by (simp add: parse_simps G_example_def)

subsection \<open>Syntax errors\<close>

lemma level_parser_unfold:
  "level_parser lv ts c =
     (case level_operand lv ts c of Inl p \<Rightarrow> Inl p | Inr (e, c') \<Rightarrow> level_loop lv ts e c')"
proof (cases lv)
  case EqualityLevel
  show ?thesis
    unfolding EqualityLevel level_parser.simps level_operand.simps level_loop.simps
    by (rule Parser_equality.simps)
next
  case ComparisonLevel
  show ?thesis
    unfolding ComparisonLevel level_parser.simps level_operand.simps level_loop.simps
    by (rule Parser_comparison.simps)
next
  case TermLevel
  show ?thesis
    unfolding TermLevel level_parser.simps level_operand.simps level_loop.simps
    by (rule Parser_term.simps)
next
  case FactorLevel
  show ?thesis
    unfolding FactorLevel level_parser.simps level_operand.simps level_loop.simps
    by (rule Parser_factor.simps)
qed

lemma level_loop_unfold:
  "level_loop lv ts expr cur =
     (case Parser_match ts cur (level_operators lv) of
        Inl p \<Rightarrow> Inl p
      | Inr (matched, c) \<Rightarrow>
          if matched then
            (case Parser_previous ts c of
               Inl p \<Rightarrow> Inl p
             | Inr operator \<Rightarrow>
                 (case level_operand lv ts c of
                    Inl p \<Rightarrow> Inl p
                  | Inr (right, c') \<Rightarrow> level_loop lv ts (Binary operator expr right) c'))
          else Inr (expr, c))"
proof (cases lv)
  case EqualityLevel
  show ?thesis
    unfolding EqualityLevel level_operators.simps level_operand.simps level_loop.simps
    by (rule equality_loop.simps)
next
  case ComparisonLevel
  show ?thesis
    unfolding ComparisonLevel level_operators.simps level_operand.simps level_loop.simps
    by (rule comparison_loop.simps)
next
  case TermLevel
  show ?thesis
    unfolding TermLevel level_operators.simps level_operand.simps level_loop.simps
    by (rule term_loop.simps)
next
  case FactorLevel
  show ?thesis
    unfolding FactorLevel level_operators.simps level_operand.simps level_loop.simps
    by (rule factor_loop.simps)
qed

lemma level_loop_hit:
  assumes "c < length ts" "Type (ts ! c) \<in> set (level_operators lv)"
  shows "level_loop lv ts e c =
           (case level_operand lv ts (c + 1) of
              Inl p \<Rightarrow> Inl p
            | Inr (right, c') \<Rightarrow> level_loop lv ts (Binary (ts ! c) e right) c')"
proof -
  from Parser_match_hit [OF assms level_operators_no_EOF]
  have m: "Parser_match ts c (level_operators lv) = Inr (True, Suc c)" by simp
  from assms have p: "Parser_previous ts (Suc c) = Inr (ts ! c)" by (simp add: Parser_previous_def)
  show ?thesis by (subst level_loop_unfold) (simp add: m p)
qed

lemma unary_hit:
  assumes "c < length ts" "Type (ts ! c) = MINUS \<or> Type (ts ! c) = BANG"
  shows "Parser_unary ts c =
           (case Parser_unary ts (c + 1) of
              Inl p \<Rightarrow> Inl p
            | Inr (right, c') \<Rightarrow> Inr (Unary (ts ! c) right, c'))"
proof -
  from assms have "Type (ts ! c) \<in> set [MINUS, BANG]" by auto
  from Parser_match_hit [OF assms(1) this]
  have m: "Parser_match ts c [MINUS, BANG] = Inr (True, Suc c)" by simp
  from assms have p: "Parser_previous ts (Suc c) = Inr (ts ! c)" by (simp add: Parser_previous_def)
  show ?thesis by (subst Parser_unary.simps) (simp add: m p)
qed

lemma unary_miss:
  assumes "c < length ts" "Type (ts ! c) \<noteq> MINUS" "Type (ts ! c) \<noteq> BANG"
  shows "Parser_unary ts c = Parser_primary ts c"
proof -
  from assms have "Type (ts ! c) \<notin> set [MINUS, BANG]" by auto
  from Parser_match_miss [OF assms(1) this]
  show ?thesis by (subst Parser_unary.simps) simp
qed

lemma primary_paren:
  assumes "c < length ts" "Type (ts ! c) = LEFT_PAREN"
  shows "Parser_primary ts c =
           (case Parser_expression ts (c + 1) of
              Inl p \<Rightarrow> Inl p
            | Inr (expr, c6) \<Rightarrow>
                (case Parser_consume ts c6 RIGHT_PAREN
                        (''Expect '' @ [CHR 0x27] @ '')'' @ [CHR 0x27] @ '' after expression.'') of
                   Inl p \<Rightarrow> Inl p
                 | Inr (t, c7) \<Rightarrow> Inr (Grouping expr, c7)))"
proof -
  from assms have m1: "Parser_match ts c [NUMBER, STRING] = Inr (False, c)"
    and m2: "Parser_match ts c [TRUE] = Inr (False, c)"
    and m3: "Parser_match ts c [FALSE] = Inr (False, c)"
    and m4: "Parser_match ts c [NIL] = Inr (False, c)"
    by (simp_all add: Parser_match_miss)
  from assms have m5: "Parser_match ts c [LEFT_PAREN] = Inr (True, Suc c)"
    using Parser_match_hit [of c ts "[LEFT_PAREN]"] by simp
  show ?thesis by (subst Parser_primary.simps) (simp add: m1 m2 m3 m4 m5)
qed

lemma consume_miss:
  assumes "c < length ts" "Type (ts ! c) \<noteq> ty"
  shows "Parser_consume ts c ty m = Inl (PanicParseError (Parser_error (ts ! c) m))"
  using assms
  by (simp add: Parser_consume_def Parser_checkTokenType_def Parser_isAtEnd_def Parser_peek_def)

lemma primary_none:
  assumes "c < length ts"
    and "Type (ts ! c) \<notin> {NUMBER, STRING, TRUE, FALSE, NIL, LEFT_PAREN}"
  shows "Parser_primary ts c = Inl (PanicParseError (Parser_error (ts ! c) ''Expect expression''))"
proof -
  from assms have m1: "Parser_match ts c [NUMBER, STRING] = Inr (False, c)"
    and m2: "Parser_match ts c [TRUE] = Inr (False, c)"
    and m3: "Parser_match ts c [FALSE] = Inr (False, c)"
    and m4: "Parser_match ts c [NIL] = Inr (False, c)"
    and m5: "Parser_match ts c [LEFT_PAREN] = Inr (False, c)"
    by (simp_all add: Parser_match_miss)
  from assms(1) have pk: "Parser_peek ts c = Inr (ts ! c)" by (simp add: Parser_peek_def)
  show ?thesis by (subst Parser_primary.simps) (simp add: m1 m2 m3 m4 m5 pk)
qed

lemma Parse_tree_or_one_error_cases:
  assumes "k < length ts" and "Type (ts ! k) = EOF"
  shows "(\<exists>e. Parser_Parse ts = Some (Some e, None)) \<or>
         (\<exists>err. Parser_Parse ts = Some (None, Some err))"
proof -
  from guardedD(1) [OF Parser_guarded(1) [of ts 0] _ assms]
  have ne: "Parser_expression ts 0 \<noteq> Inl PanicRuntime" by simp
  show ?thesis
  proof (cases "Parser_expression ts 0")
    case (Inl p)
    with ne obtain err where "p = PanicParseError err" by (cases p) auto
    with Inl show ?thesis by (simp add: Parser_Parse_def)
  next
    case (Inr b)
    then show ?thesis by (cases b) (simp add: Parser_Parse_def)
  qed
qed

text \<open>
  A sequence with no end-of-input token is outside the invariant of the data model, and
  no scan returns one. On the empty sequence the parser reads out of range, and \<open>Parse\<close>
  does not return.
\<close>

lemma Parse_empty_panics: "Parser_Parse [] = None"
  by (simp add: parse_simps)

text \<open>
  C8. A token sequence ends with the end-of-input token (the invariant of the data model,
  which every result of \<open>ScanTokens\<close> has); the theorem needs only that the sequence
  contains one. Then \<open>Parse\<close> returns either a tree and no error, or no tree and one
  syntax error. A violation aborts the parse at once, at every place of the grammar: a
  token that starts no primary expression, or a missing closing parenthesis, is the
  error of \<open>primary\<close>; an error of the operand of a unary operator, of the expression
  inside parentheses, of the left or of a right operand of a binary level, or of the rest
  of a level's loop, is the result of the function that called for it, with no tree; and
  the error of \<open>expression\<close> is what \<open>Parse\<close> returns.
\<close>

theorem Parse_tree_or_one_error:
  assumes "k < length ts" and "Type (ts ! k) = EOF"
  shows "((\<exists>e. Parser_Parse ts = Some (Some e, None)) \<or>
          (\<exists>err. Parser_Parse ts = Some (None, Some err))) \<and>
         (\<forall>err. Parser_expression ts 0 = Inl (PanicParseError err) \<longrightarrow>
                Parser_Parse ts = Some (None, Some err)) \<and>
         (\<forall>c p. Parser_equality ts c = Inl p \<longrightarrow> Parser_expression ts c = Inl p) \<and>
         (\<forall>lv c p. level_operand lv ts c = Inl p \<longrightarrow> level_parser lv ts c = Inl p) \<and>
         (\<forall>lv c e c' p. level_operand lv ts c = Inr (e, c') \<and> level_loop lv ts e c' = Inl p \<longrightarrow>
                level_parser lv ts c = Inl p) \<and>
         (\<forall>lv e c p. c < length ts \<and> Type (ts ! c) \<in> set (level_operators lv) \<and>
                level_operand lv ts (c + 1) = Inl p \<longrightarrow> level_loop lv ts e c = Inl p) \<and>
         (\<forall>lv e c r c' p. c < length ts \<and> Type (ts ! c) \<in> set (level_operators lv) \<and>
                level_operand lv ts (c + 1) = Inr (r, c') \<and>
                level_loop lv ts (Binary (ts ! c) e r) c' = Inl p \<longrightarrow>
                level_loop lv ts e c = Inl p) \<and>
         (\<forall>c p. c < length ts \<and> (Type (ts ! c) = MINUS \<or> Type (ts ! c) = BANG) \<and>
                Parser_unary ts (c + 1) = Inl p \<longrightarrow> Parser_unary ts c = Inl p) \<and>
         (\<forall>c p. c < length ts \<and> Type (ts ! c) \<noteq> MINUS \<and> Type (ts ! c) \<noteq> BANG \<and>
                Parser_primary ts c = Inl p \<longrightarrow> Parser_unary ts c = Inl p) \<and>
         (\<forall>c p. c < length ts \<and> Type (ts ! c) = LEFT_PAREN \<and>
                Parser_expression ts (c + 1) = Inl p \<longrightarrow> Parser_primary ts c = Inl p) \<and>
         (\<forall>c e c'. c < length ts \<and> Type (ts ! c) = LEFT_PAREN \<and>
                Parser_expression ts (c + 1) = Inr (e, c') \<and> c' < length ts \<and>
                Type (ts ! c') \<noteq> RIGHT_PAREN \<longrightarrow>
                Parser_primary ts c =
                  Inl (PanicParseError (Parser_error (ts ! c')
                    (''Expect '' @ [CHR 0x27] @ '')'' @ [CHR 0x27] @ '' after expression.'')))) \<and>
         (\<forall>c. c < length ts \<and>
                Type (ts ! c) \<notin> {NUMBER, STRING, TRUE, FALSE, NIL, LEFT_PAREN} \<longrightarrow>
                Parser_primary ts c =
                  Inl (PanicParseError (Parser_error (ts ! c) ''Expect expression'')))"
proof (intro conjI allI impI)
  show "(\<exists>e. Parser_Parse ts = Some (Some e, None)) \<or>
        (\<exists>err. Parser_Parse ts = Some (None, Some err))"
    by (rule Parse_tree_or_one_error_cases [OF assms])
next
  fix err assume "Parser_expression ts 0 = Inl (PanicParseError err)"
  then show "Parser_Parse ts = Some (None, Some err)" by (simp add: Parser_Parse_def)
next
  fix c p assume "Parser_equality ts c = Inl p"
  then show "Parser_expression ts c = Inl p" by (simp add: Parser_expression.simps)
next
  fix lv c p assume "level_operand lv ts c = Inl p"
  then show "level_parser lv ts c = Inl p" by (simp add: level_parser_unfold)
next
  fix lv c e c' p assume "level_operand lv ts c = Inr (e, c') \<and> level_loop lv ts e c' = Inl p"
  then show "level_parser lv ts c = Inl p" by (simp add: level_parser_unfold)
next
  fix lv e c p
  assume a: "c < length ts \<and> Type (ts ! c) \<in> set (level_operators lv) \<and>
     level_operand lv ts (c + 1) = Inl p"
  then have "c < length ts" "Type (ts ! c) \<in> set (level_operators lv)" by simp_all
  from level_loop_hit [OF this, of e] a show "level_loop lv ts e c = Inl p" by simp
next
  fix lv e c r c' p
  assume a: "c < length ts \<and> Type (ts ! c) \<in> set (level_operators lv) \<and>
     level_operand lv ts (c + 1) = Inr (r, c') \<and>
     level_loop lv ts (Binary (ts ! c) e r) c' = Inl p"
  then have "c < length ts" "Type (ts ! c) \<in> set (level_operators lv)" by simp_all
  from level_loop_hit [OF this, of e] a show "level_loop lv ts e c = Inl p" by simp
next
  fix c p
  assume a: "c < length ts \<and> (Type (ts ! c) = MINUS \<or> Type (ts ! c) = BANG) \<and>
     Parser_unary ts (c + 1) = Inl p"
  then have "c < length ts" "Type (ts ! c) = MINUS \<or> Type (ts ! c) = BANG" by simp_all
  from unary_hit [OF this] a show "Parser_unary ts c = Inl p" by simp
next
  fix c p
  assume a: "c < length ts \<and> Type (ts ! c) \<noteq> MINUS \<and> Type (ts ! c) \<noteq> BANG \<and>
     Parser_primary ts c = Inl p"
  then have "c < length ts" "Type (ts ! c) \<noteq> MINUS" "Type (ts ! c) \<noteq> BANG" by simp_all
  from unary_miss [OF this] a show "Parser_unary ts c = Inl p" by simp
next
  fix c p
  assume a: "c < length ts \<and> Type (ts ! c) = LEFT_PAREN \<and> Parser_expression ts (c + 1) = Inl p"
  then have "c < length ts" "Type (ts ! c) = LEFT_PAREN" by simp_all
  from primary_paren [OF this] a show "Parser_primary ts c = Inl p" by simp
next
  fix c e c'
  assume a: "c < length ts \<and> Type (ts ! c) = LEFT_PAREN \<and>
     Parser_expression ts (c + 1) = Inr (e, c') \<and> c' < length ts \<and>
     Type (ts ! c') \<noteq> RIGHT_PAREN"
  then have 1: "c < length ts" "Type (ts ! c) = LEFT_PAREN"
    and 2: "c' < length ts" "Type (ts ! c') \<noteq> RIGHT_PAREN"
    and 3: "Parser_expression ts (c + 1) = Inr (e, c')" by simp_all
  from primary_paren [OF 1] 3 consume_miss [OF 2]
  show "Parser_primary ts c =
      Inl (PanicParseError (Parser_error (ts ! c')
        (''Expect '' @ [CHR 0x27] @ '')'' @ [CHR 0x27] @ '' after expression.'')))"
    by simp
next
  fix c
  assume "c < length ts \<and> Type (ts ! c) \<notin> {NUMBER, STRING, TRUE, FALSE, NIL, LEFT_PAREN}"
  then have "c < length ts" "Type (ts ! c) \<notin> {NUMBER, STRING, TRUE, FALSE, NIL, LEFT_PAREN}"
    by simp_all
  then show "Parser_primary ts c =
      Inl (PanicParseError (Parser_error (ts ! c) ''Expect expression''))"
    by (rule primary_none)
qed

theorem Parse_tree_or_one_error_witness:
  "Parser_Parse
     [\<lparr>Type = MINUS, Lexeme = ''-'', LiteralVal = VNil, Line = 0\<rparr>,
      \<lparr>Type = RIGHT_PAREN, Lexeme = '')'', LiteralVal = VNil, Line = 0\<rparr>,
      \<lparr>Type = EOF, Lexeme = [], LiteralVal = VNil, Line = 0\<rparr>] =
     Some (None, Some (ParseError ('') RIGHT_PAREN 0 at '' @ [CHR 0x27] @ ''Expect expression'' @
                                   [CHR 0x27]))) \<and>
   Parser_Parse
     [\<lparr>Type = LEFT_PAREN, Lexeme = ''('', LiteralVal = VNil, Line = 0\<rparr>,
      \<lparr>Type = NUMBER, Lexeme = ''1'', LiteralVal = VNum 0x3FF0000000000000, Line = 0\<rparr>,
      \<lparr>Type = EOF, Lexeme = [], LiteralVal = VNil, Line = 0\<rparr>] =
     Some (None, Some (ParseError ('' EOF 0 at '' @ [CHR 0x27] @ ''Expect '' @ [CHR 0x27] @ '')'' @ [CHR 0x27] @
                                   '' after expression.'' @ [CHR 0x27]))) \<and>
   Parser_Parse
     [\<lparr>Type = NUMBER, Lexeme = ''1'', LiteralVal = VNum 0x3FF0000000000000, Line = 0\<rparr>,
      \<lparr>Type = EOF, Lexeme = [], LiteralVal = VNil, Line = 0\<rparr>] =
     Some (Some (Literal (VNum 0x3FF0000000000000)), None)"
  using Parse_tree_or_one_error [of 2
     "[\<lparr>Type = MINUS, Lexeme = ''-'', LiteralVal = VNil, Line = 0\<rparr>,
      \<lparr>Type = RIGHT_PAREN, Lexeme = '')'', LiteralVal = VNil, Line = 0\<rparr>,
      \<lparr>Type = EOF, Lexeme = [], LiteralVal = VNil, Line = 0\<rparr>]"]
    Parse_tree_or_one_error [of 2
     "[\<lparr>Type = LEFT_PAREN, Lexeme = ''('', LiteralVal = VNil, Line = 0\<rparr>,
      \<lparr>Type = NUMBER, Lexeme = ''1'', LiteralVal = VNum 0x3FF0000000000000, Line = 0\<rparr>,
      \<lparr>Type = EOF, Lexeme = [], LiteralVal = VNil, Line = 0\<rparr>]"]
    Parse_tree_or_one_error [of 1
     "[\<lparr>Type = NUMBER, Lexeme = ''1'', LiteralVal = VNum 0x3FF0000000000000, Line = 0\<rparr>,
      \<lparr>Type = EOF, Lexeme = [], LiteralVal = VNil, Line = 0\<rparr>]"]
  by (simp add: parse_simps fmt_d_def digits10.simps)

end
